theory Spec2Isabelle
  imports Main "HOL-Library.Sublist"
begin

section \<open>Kaboomer: the project scaffolder\<close>

text \<open>
  The program is a command-line tool with two commands: \<open>init\<close> writes a fixed tree of
  files into a project root, \<open>add\<close> writes one stub file into an existing project.
  Both are sequences of awaited file-system calls. The embedding passes the file system
  explicitly: every call takes a world and returns either a failure together with the
  world reached at that point, or the new world.
\<close>

subsection \<open>Paths\<close>

text \<open>
  A path is absolute and normalised: the list of its segments below the file-system root
  (\<open>/w/game\<close> is \<open>[''w'', ''game'']\<close>, the root directory is \<open>[]\<close>). \<open>dirname\<close> and \<open>join\<close>
  are the POSIX functions of the \<open>path\<close> module, restricted to an absolute first
  argument (the only use the program makes of them): \<open>join\<close> splits every further
  argument at \<open>/\<close>, drops empty and \<open>.\<close> segments and lets \<open>..\<close> step to the parent
  (staying at the root directory at the top).

  A trailing separator is not represented. \<open>path.join\<close> keeps one, and \<open>stat\<close> tells the
  two spellings apart in one case only: a regular file named with a trailing separator
  is reported as not a directory, as if nothing were there. \<open>trailing_separator\<close> says
  whether an argument ends in a separator; a statement about a path that exists is
  made for arguments without one, or for paths that are directories.
\<close>

type_synonym path = "string list"

definition dirname :: "path \<Rightarrow> path" where
  "dirname p = butlast p"

fun split_slash :: "string \<Rightarrow> string list" where
  "split_slash [] = [[]]"
| "split_slash (c # cs) =
     (if c = CHR ''/'' then [] # split_slash cs
      else (case split_slash cs of
              [] \<Rightarrow> [[c]]
            | s # ss \<Rightarrow> (c # s) # ss))"

definition push_segment :: "path \<Rightarrow> string \<Rightarrow> path" where
  "push_segment p s =
     (if s = [] \<or> s = ''.'' then p
      else if s = ''..'' then butlast p
      else p @ [s])"

definition join :: "path \<Rightarrow> string list \<Rightarrow> path" where
  "join base args = foldl push_segment base (concat (map split_slash args))"

definition trailing_separator :: "string \<Rightarrow> bool" where
  "trailing_separator s = (s \<noteq> [] \<and> last s = CHR ''/'')"

subsection \<open>The file system\<close>

text \<open>
  The file system maps a path to the node found there. The root directory always exists
  and is not stored. Every effect on the file system is also appended to a trace, so that
  a statement about what a run writes can speak about each call, not only about the
  final contents. Console output is not modelled, except for the message printed before
  \<open>process.exit\<close>.
\<close>

datatype node = Dir | File string

type_synonym fs = "path \<Rightarrow> node option"

datatype event =
    Mkdir path
  | WriteFile path string
  | RmRecursive path
  | Exec string path

record world =
  files :: fs
  trace :: "event list"

datatype errno = ENOENT | ENOTDIR | EEXIST | EISDIR | EBUSY

datatype failure =
    ProcessExit nat string
  | FsError errno
  | SpawnError
  | TypeError

type_synonym result = "(failure \<times> world) + world"

definition exists :: "fs \<Rightarrow> path \<Rightarrow> bool" where
  "exists f p = (p = [] \<or> f p \<noteq> None)"

definition is_dir :: "fs \<Rightarrow> path \<Rightarrow> bool" where
  "is_dir f p = (p = [] \<or> f p = Some Dir)"

definition is_file :: "fs \<Rightarrow> path \<Rightarrow> bool" where
  "is_file f p = (p \<noteq> [] \<and> (case f p of Some (File c) \<Rightarrow> True | _ \<Rightarrow> False))"

text \<open>
  \<open>mkdir\<close>, \<open>writeFile\<close> and \<open>rm\<close> with \<open>recursive: true\<close> are the calls of
  \<open>fs/promises\<close>. They are modelled with the failures that depend on the tree: a
  missing parent, a parent that is a regular file, an existing target. Removing the root
  directory itself is refused.
\<close>

definition mkdir :: "path \<Rightarrow> world \<Rightarrow> result" where
  "mkdir p w =
     (if exists (files w) p then Inl (FsError EEXIST, w)
      else if \<not> exists (files w) (dirname p) then Inl (FsError ENOENT, w)
      else if \<not> is_dir (files w) (dirname p) then Inl (FsError ENOTDIR, w)
      else Inr (w\<lparr>files := (files w)(p \<mapsto> Dir), trace := trace w @ [Mkdir p]\<rparr>))"

definition writeFile :: "path \<Rightarrow> string \<Rightarrow> world \<Rightarrow> result" where
  "writeFile p content w =
     (if is_dir (files w) p then Inl (FsError EISDIR, w)
      else if \<not> exists (files w) (dirname p) then Inl (FsError ENOENT, w)
      else if \<not> is_dir (files w) (dirname p) then Inl (FsError ENOTDIR, w)
      else Inr (w\<lparr>files := (files w)(p \<mapsto> File content),
                  trace := trace w @ [WriteFile p content]\<rparr>))"

definition remove_subtree :: "path \<Rightarrow> fs \<Rightarrow> fs" where
  "remove_subtree p f = (\<lambda>q. if prefix p q then None else f q)"

definition rm :: "path \<Rightarrow> world \<Rightarrow> result" where
  "rm p w =
     (if \<not> exists (files w) p then Inl (FsError ENOENT, w)
      else if p = [] then Inl (FsError EBUSY, w)
      else Inr (w\<lparr>files := remove_subtree p (files w),
                  trace := trace w @ [RmRecursive p]\<rparr>))"

text \<open>
  \<open>makeFolders\<close>: create the parent chain first if the parent is missing, then the
  directory itself if it is missing.
\<close>

definition mkdir_if_missing :: "path \<Rightarrow> world \<Rightarrow> result" where
  "mkdir_if_missing p w = (if \<not> exists (files w) p then mkdir p w else Inr w)"

function makeFolders :: "path \<Rightarrow> world \<Rightarrow> result" where
  "makeFolders p w =
     (if \<not> exists (files w) (dirname p)
      then (case makeFolders (dirname p) w of
              Inl e \<Rightarrow> Inl e
            | Inr w' \<Rightarrow> mkdir_if_missing p w')
      else mkdir_if_missing p w)"
  by pat_completeness auto
termination
proof (relation "measure (\<lambda>(p, w). length p)")
  show "wf (measure (\<lambda>(p, w). length p))"
    by simp
next
  fix p :: path and w :: world
  assume "\<not> exists (files w) (dirname p)"
  then have "p \<noteq> []"
    by (auto simp: exists_def dirname_def)
  then show "((dirname p, w), (p, w)) \<in> measure (\<lambda>(p, w). length p)"
    by (simp add: dirname_def)
qed

declare makeFolders.simps [simp del]

text \<open>\<open>makeFile\<close>: the second argument is only used for the console line.\<close>

definition makeFile :: "path \<Rightarrow> path \<Rightarrow> string \<Rightarrow> world \<Rightarrow> result" where
  "makeFile p cwd content w =
     (case makeFolders (dirname p) w of
        Inl e \<Rightarrow> Inl e
      | Inr w' \<Rightarrow> writeFile p content w')"

text \<open>
  \<open>runCommand\<close>: the promise is rejected on the child's \<open>error\<close> event and resolved on
  its \<open>exit\<close> event, whatever the exit code. The answer of the operating system is a
  parameter \<open>exec\<close>. The only command the program runs is \<open>git init\<close>, which writes
  nothing outside the repository directory \<open>.git\<close> of its working directory. What the
  child leaves there belongs to the answer: in \<open>Exited code left\<close>, \<open>left\<close> gives the entries
  at and below \<open>.git\<close> once the child has exited, with paths relative to the working
  directory (\<open>left [''.git''] = None\<close> when no repository is there). A child that could not
  be spawned leaves nothing.
\<close>

datatype cmd_result = Exited nat fs | SpawnFailed

definition child_leaves :: "path \<Rightarrow> fs \<Rightarrow> fs \<Rightarrow> fs" where
  "child_leaves cwd left f =
     (\<lambda>q. if prefix (cwd @ [''.git'']) q then left (drop (length cwd) q) else f q)"

definition runCommand :: "(string \<Rightarrow> path \<Rightarrow> cmd_result) \<Rightarrow> string \<Rightarrow> path \<Rightarrow> world \<Rightarrow> result" where
  "runCommand exec command cwd w =
     (let w' = w\<lparr>trace := trace w @ [Exec command cwd]\<rparr>
      in case exec command cwd of
           SpawnFailed \<Rightarrow> Inl (SpawnError, w')
         | Exited code left \<Rightarrow> Inr (w'\<lparr>files := child_leaves cwd left (files w')\<rparr>))"

text \<open>A sequence of awaited calls: the first failure ends the run.\<close>

fun steps :: "(world \<Rightarrow> result) list \<Rightarrow> world \<Rightarrow> result" where
  "steps [] w = Inr w"
| "steps (f # fs) w =
     (case f w of
        Inl e \<Rightarrow> Inl e
      | Inr w' \<Rightarrow> steps fs w')"

subsection \<open>Strings\<close>

text \<open>
  A string is the list of the bytes of its UTF-8 form, the form in which file names and
  file texts reach the file system. Splitting at the separator and matching the two
  patterns see ASCII bytes only, and no byte of a longer sequence is an ASCII byte, so
  on bytes they give what the source gives on characters. The case mappings are defined
  on the ASCII letters and leave every other byte as it is.
\<close>

definition join_str :: "string \<Rightarrow> string list \<Rightarrow> string" where
  "join_str sep xs = (case xs of [] \<Rightarrow> [] | y # ys \<Rightarrow> y @ concat (map (\<lambda>x. sep @ x) ys))"

definition text_lines :: "string list \<Rightarrow> string" where
  "text_lines xs = join_str [CHR 0x0A] xs"

definition lower_letters :: string where
  "lower_letters = ''abcdefghijklmnopqrstuvwxyz''"

definition upper_letters :: string where
  "upper_letters = ''ABCDEFGHIJKLMNOPQRSTUVWXYZ''"

definition digits :: string where
  "digits = ''0123456789''"

definition toUpperCase_char :: "char \<Rightarrow> char" where
  "toUpperCase_char c =
     (case map_of (zip lower_letters upper_letters) c of Some u \<Rightarrow> u | None \<Rightarrow> c)"

definition toLowerCase_char :: "char \<Rightarrow> char" where
  "toLowerCase_char c =
     (case map_of (zip upper_letters lower_letters) c of Some l \<Rightarrow> l | None \<Rightarrow> c)"

definition is_letter :: "char \<Rightarrow> bool" where
  "is_letter c = (c \<in> set (lower_letters @ upper_letters))"

subsection \<open>Regular expressions\<close>

text \<open>
  The package-name pattern is kept as data and matched by derivatives. The pattern is
  anchored at both ends and has no flags, so \<open>test\<close> asks whether the whole string
  matches.
\<close>

datatype regex =
    Zero
  | One
  | Class "char list"
  | Seq regex regex
  | Alt regex regex
  | Star regex

definition Lit :: "char \<Rightarrow> regex" where
  "Lit c = Class [c]"

definition Opt :: "regex \<Rightarrow> regex" where
  "Opt r = Alt r One"

fun nullable :: "regex \<Rightarrow> bool" where
  "nullable Zero = False"
| "nullable One = True"
| "nullable (Class cs) = False"
| "nullable (Seq r s) = (nullable r \<and> nullable s)"
| "nullable (Alt r s) = (nullable r \<or> nullable s)"
| "nullable (Star r) = True"

fun deriv :: "char \<Rightarrow> regex \<Rightarrow> regex" where
  "deriv c Zero = Zero"
| "deriv c One = Zero"
| "deriv c (Class cs) = (if c \<in> set cs then One else Zero)"
| "deriv c (Seq r s) =
     (if nullable r then Alt (Seq (deriv c r) s) (deriv c s) else Seq (deriv c r) s)"
| "deriv c (Alt r s) = Alt (deriv c r) (deriv c s)"
| "deriv c (Star r) = Seq (deriv c r) (Star r)"

definition regex_test :: "regex \<Rightarrow> string \<Rightarrow> bool" where
  "regex_test r s = nullable (foldl (\<lambda>r c. deriv c r) r s)"

text \<open>\<open>/^(@[a-z0-9-~][a-z0-9-._~]*\/)?[a-z0-9-~][a-z0-9-._~]*$/\<close>\<close>

definition name_first :: regex where
  "name_first = Class (lower_letters @ digits @ ''-~'')"

definition name_rest :: regex where
  "name_rest = Class (lower_letters @ digits @ ''-._~'')"

definition PACKAGE_NAME_REGEX :: regex where
  "PACKAGE_NAME_REGEX =
     Seq (Opt (Seq (Lit CHR ''@'') (Seq name_first (Seq (Star name_rest) (Lit CHR ''/'')))))
         (Seq name_first (Star name_rest))"

text \<open>
  \<open>normalizeName\<close>: \<open>str.replace(/-[a-zA-Z]/, (m) => m[1].toUpperCase())\<close>. The pattern
  has no \<open>g\<close> flag, so only the leftmost match is replaced.
\<close>

fun normalizeName :: "string \<Rightarrow> string" where
  "normalizeName (c # d # cs) =
     (if c = CHR ''-'' \<and> is_letter d then toUpperCase_char d # cs
      else c # normalizeName (d # cs))"
| "normalizeName cs = cs"

text \<open>
  \<open>capitalize\<close>: \<open>str[0].toUpperCase() + str.substring(1).toLowerCase()\<close>. On the empty
  string \<open>str[0]\<close> is undefined and the call throws. The source maps case by Unicode;
  the definition is its restriction to ASCII strings, and every statement that names the
  text it produces is made for ASCII strings only.
\<close>

definition capitalize :: "string \<Rightarrow> string option" where
  "capitalize str =
     (case str of
        [] \<Rightarrow> None
      | c # cs \<Rightarrow> Some (toUpperCase_char c # map toLowerCase_char cs))"

subsection \<open>File contents\<close>

text \<open>
  The texts the program writes. Structured values are shown as \<open>JSON.stringify\<close> with
  an indent of four prints them.
\<close>

definition empty_main_ts :: "string" where
  \<open>empty_main_ts = text_lines
    [''export default function scene() {'',
     ''    add([ text("Hello, World!"), pos(width() / 2, height() / 2) ]);'',
     ''}'']\<close>

definition basic_message_ts :: "string" where
  \<open>basic_message_ts = text_lines
    [''export default function message(content: string) {'',
     ''    return make(['',
     ''        text(content, { size: 50 }), //'',
     ''        anchor("center"),'',
     ''        pos(width() / 2, height() / 2),'',
     ''    ]);'',
     ''}'']\<close>

definition basic_main_ts :: "string" where
  \<open>basic_main_ts = text_lines
    [''import message from "@objects/message";'',
     '''',
     ''export default function scene() {'',
     ''    add(message("Click to go to scene 2."));'',
     '''',
     ''    onClick(() => go("other"));'',
     ''}'']\<close>

definition basic_other_ts :: "string" where
  \<open>basic_other_ts = text_lines
    [''import message from "@objects/message";'',
     '''',
     ''export default function scene() {'',
     ''    add(message("Click to go to scene 1."));'',
     '''',
     ''    onClick(() => go("main"));'',
     ''}'']\<close>

definition manifest_json :: "string" where
  \<open>manifest_json = text_lines
    [''{'',
     ''    "lang": "en-us",'',
     ''    "name": "Kaboomer Game",'',
     ''    "short_name": "Kaboomer Game",'',
     ''    "description": "A game generated using Kaboomer.",'',
     ''    "start_url": "/",'',
     ''    "background_color": "#a83a32",'',
     ''    "theme_color": "#a83a32",'',
     ''    "orientation": "landscape",'',
     ''    "display": "standalone",'',
     ''    "icons": ['',
     ''        {'',
     ''            "src": "https://kaboomjs.com/static/img/k.png",'',
     ''            "sizes": "160x160"'',
     ''        }'',
     ''    ]'',
     ''}'']\<close>

definition index_ts :: "string" where
  \<open>index_ts = text_lines
    [''// This is the main file that handles loading scenes and importing kaboom.'',
     ''// You never modify the loadScenes function, but feel free to load some'',
     ''// global assets using loadSprite, etc.'',
     '''',
     ''import kaboom from "kaboom";'',
     ''kaboom();'',
     '''',
     ''// You can add your global asset loading calls here, if you only use an asset in a single scene, then load it in there.'',
     ''// For example:'',
     ''// import playerSpriteURL from "@assets/player.png";'',
     ''// loadSprite("player", playerSpriteURL);'',
     '''',
     ''async function loadScenes() {'',
     ''    // Get all scene files inside ./scenes'',
     ''    const scenes = import.meta.glob("./scenes/*.ts");'',
     '''',
     ''    // A basic regex to match any .ts file inside ./scenes'',
     ''    const SCENE_FILE = /'' @ [CHR 0x5C] @ ''.'' @ [CHR 0x5C] @ ''/scenes'' @ [CHR 0x5C] @ ''/([^.]+)'' @ [CHR 0x5C] @ ''.ts/;'',
     '''',
     ''    for (const scenePath in scenes) {'',
     ''        // Define the scene.'',
     ''        const sceneName = scenePath.replace(SCENE_FILE, "$1");'',
     '''',
     ''        scene(sceneName, async (props: any) => {'',
     ''            const sceneInit: { default: (props: any) => any } = (await scenes[scenePath]()) as any;'',
     '''',
     ''            sceneInit.default(props);'',
     ''        });'',
     ''    }'',
     '''',
     ''    go("main");'',
     ''}'',
     '''',
     ''loadScenes();'',
     '''']\<close>

definition constants_ts :: "string" where
  \<open>constants_ts = text_lines
    [''// You can define constants here, that you can later access by importing '' @ [CHR 0x27] @ ''@constants'' @ [CHR 0x27],
     '''',
     '''']\<close>

definition index_html :: "string" where
  \<open>index_html = text_lines
    [''<!DOCTYPE html>'',
     ''<html lang="en">'',
     ''<head>'',
     ''    <meta charset="UTF-8">'',
     ''    <meta name="viewport" content="width=device-width, initial-scale=1.0">'',
     ''    <link rel="manifest" href="manifest.json">'',
     ''    <title>Kaboomer Project</title>'',
     ''    <style>'',
     ''        html, body {'',
     ''            height: 100vh;'',
     ''            margin: 0;'',
     ''            overflow: hidden;'',
     ''        }'',
     ''    </style>'',
     ''</head>'',
     ''<body>'',
     ''    <script type="module" src="src/index.ts"></script>'',
     ''</body>'',
     ''</html>'']\<close>

definition prettierrc :: "string" where
  \<open>prettierrc = text_lines
    [''{'',
     ''    "tabWidth": 4,'',
     ''    "printWidth": 120'',
     ''}'']\<close>

definition package_json :: "string \<Rightarrow> string" where
  \<open>package_json name = text_lines
    [''{'',
     ''    "name": "'' @ name @ ''",'',
     ''    "version": "0.0.1",'',
     ''    "description": "A project scaffolded by Kaboomer.",'',
     ''    "main": "dist/index.js",'',
     ''    "scripts": {'',
     ''        "dev": "vite .",'',
     ''        "start": "vite build && vite preview",'',
     ''        "format": "prettier -w src/**"'',
     ''    },'',
     ''    "type": "module",'',
     ''    "dependencies": {'',
     ''        "kaboom": "latest"'',
     ''    },'',
     ''    "devDependencies": {'',
     ''        "vite": "latest",'',
     ''        "prettier": "latest"'',
     ''    },'',
     ''    "keywords": [],'',
     ''    "author": "",'',
     ''    "license": "ISC"'',
     ''}'']\<close>

definition tsconfig_json :: "string" where
  \<open>tsconfig_json = text_lines
    [''{'',
     ''    "compilerOptions": {'',
     ''        "strict": true,'',
     ''        "lib": ['',
     ''            "DOM",'',
     ''            "ESNext"'',
     ''        ],'',
     ''        "target": "ESNext",'',
     ''        "module": "ESNext",'',
     ''        "types": ['',
     ''            "vite/client",'',
     ''            "./node_modules/kaboom/dist/global.d.ts"'',
     ''        ],'',
     ''        "moduleResolution": "Bundler",'',
     ''        "paths": {'',
     ''            "@assets/*": ['',
     ''                "./assets/*"'',
     ''            ],'',
     ''            "@components/*": ['',
     ''                "./src/components/*"'',
     ''            ],'',
     ''            "@objects/*": ['',
     ''                "./src/objects/*"'',
     ''            ],'',
     ''            "@constants": ['',
     ''                "./src/constants.ts"'',
     ''            ]'',
     ''        }'',
     ''    }'',
     ''}'']\<close>

definition vite_config_js :: "string" where
  \<open>vite_config_js = text_lines
    [''import { fileURLToPath, URL } from "url";'',
     ''import { defineConfig } from "vite";'',
     '''',
     ''export default defineConfig({'',
     ''    resolve: {'',
     ''        alias: {'',
     ''            "@assets": fileURLToPath(new URL("./assets", import.meta.url)),'',
     ''            "@components": fileURLToPath(new URL("./src/components", import.meta.url)),'',
     ''            "@objects": fileURLToPath(new URL("./src/objects", import.meta.url)),'',
     ''            "@constants": fileURLToPath(new URL("./src/constants.ts", import.meta.url)),'',
     ''        },'',
     ''    },'',
     ''});'',
     '''']\<close>

definition scene_stub :: "string \<Rightarrow> string" where
  \<open>scene_stub variableName = text_lines
    [''export default function '' @ variableName @ ''() {'',
     ''    '',
     ''}'']\<close>

definition object_stub :: "string \<Rightarrow> string" where
  \<open>object_stub variableName = text_lines
    [''export default function '' @ variableName @ ''() {'',
     ''    return make(['',
     ''        '',
     ''    ]);'',
     ''}'']\<close>

definition component_stub :: "string \<Rightarrow> string \<Rightarrow> string \<Rightarrow> string" where
  \<open>component_stub name variableName capitalized = text_lines
    [''import type { Comp, GameObj } from "kaboom";'',
     '''',
     ''export default function '' @ variableName @ ''() {'',
     ''    return {'',
     ''        id: "'' @ name @ ''",'',
     ''        require: [],'',
     ''    } satisfies Comp & ThisType<GameObj> & Record<string, any>;'',
     ''    // To fully type `this` inside component you will need to'',
     ''    // include their respective Comp variants inside `GameObj<...>`'',
     ''    // For example if you have: `require: [ "pos" ]` you will need to add'',
     ''    // `PosComp` to `GameObj<...>`'',
     ''}'',
     '''',
     ''export type '' @ capitalized @ ''Comp = { [K in Exclude<keyof ReturnType<typeof '' @ variableName @ ''>, keyof Comp>]: ReturnType<typeof '' @ variableName @ ''>[K] };'',
     '''']\<close>

definition gitignore :: string where
  "gitignore = join_str [CHR 0x0A] [''node_modules'', ''package-lock.json'', ''dist'']"

text \<open>
  The declared name is the \<open>root\<close> argument itself when the pattern accepts it. A string
  the pattern accepts holds no character that \<open>JSON.stringify\<close> escapes.
\<close>

definition package_name :: "string \<Rightarrow> string" where
  "package_name root = (if regex_test PACKAGE_NAME_REGEX root then root else ''unnamed-game'')"

subsection \<open>Templates\<close>

text \<open>
  An entry of a template is \<open>null\<close> (a directory) or a text. No entry of the table holds
  any other value, so the third branch of the expansion loop is never taken.
\<close>

datatype template_name = Empty | Basic

datatype file_value = Null | Text string

definition templates :: "template_name \<Rightarrow> (string \<times> file_value) list" where
  "templates t =
     (case t of
        Empty \<Rightarrow>
          [(''assets'', Null),
           (''src/objects'', Null),
           (''src/components'', Null),
           (''src/scenes/main.ts'', Text empty_main_ts)]
      | Basic \<Rightarrow>
          [(''assets'', Null),
           (''src/components'', Null),
           (''src/objects/message.ts'', Text basic_message_ts),
           (''src/scenes/main.ts'', Text basic_main_ts),
           (''src/scenes/other.ts'', Text basic_other_ts)])"

record opts =
  force :: bool
  template :: template_name
  nogit :: bool

subsection \<open>The init command\<close>

text \<open>
  The action of \<open>init\<close>. \<open>cwd\<close> stands for \<open>process.cwd()\<close>, \<open>root\<close> is the \<open>dir\<close>
  argument as typed, \<open>opts\<close> the parsed options (the command-line parser only lets the
  two template names through). The lines printed for the operator are left out.
\<close>

definition already_exists_message :: string where
  "already_exists_message =
     ''ERROR: project root seems to already exist, run with --force to overwrite.''"

definition expand_entry :: "path \<Rightarrow> string \<times> file_value \<Rightarrow> world \<Rightarrow> result" where
  "expand_entry projectRoot entry =
     (let realPath = join projectRoot (split_slash (fst entry))
      in case snd entry of
           Null \<Rightarrow> makeFolders realPath
         | Text fileValue \<Rightarrow> makeFile realPath projectRoot fileValue)"

text \<open>Everything after the collision check.\<close>

definition scaffold ::
  "(string \<Rightarrow> path \<Rightarrow> cmd_result) \<Rightarrow> path \<Rightarrow> string \<Rightarrow> opts \<Rightarrow> world \<Rightarrow> result" where
  "scaffold exec projectRoot root opts =
     steps
       ([makeFolders projectRoot,
         makeFile (join projectRoot [''public'', ''manifest.json'']) projectRoot manifest_json,
         makeFolders (join projectRoot [''assets''])]
        @ map (expand_entry projectRoot) (templates (template opts))
        @ [makeFile (join projectRoot [''src'', ''index.ts'']) projectRoot index_ts,
           makeFile (join projectRoot [''src'', ''constants.ts'']) projectRoot constants_ts,
           makeFile (join projectRoot [''index.html'']) projectRoot index_html,
           makeFile (join projectRoot [''.prettierrc'']) projectRoot prettierrc]
        @ (if \<not> nogit opts
           then [makeFile (join projectRoot [''.gitignore'']) projectRoot gitignore,
                 runCommand exec ''git init'' projectRoot]
           else [])
        @ [makeFile (join projectRoot [''package.json'']) projectRoot
             (package_json (package_name root)),
           makeFile (join projectRoot [''tsconfig.json'']) projectRoot tsconfig_json,
           makeFile (join projectRoot [''vite.config.js'']) projectRoot vite_config_js])"

definition initProject ::
  "path \<Rightarrow> (string \<Rightarrow> path \<Rightarrow> cmd_result) \<Rightarrow> string \<Rightarrow> opts \<Rightarrow> world \<Rightarrow> result" where
  "initProject cwd exec root opts w =
     (let projectRoot = join cwd [root]
      in if exists (files w) projectRoot
         then (if \<not> force opts then Inl (ProcessExit 1 already_exists_message, w)
               else (case rm projectRoot w of
                       Inl e \<Rightarrow> Inl e
                     | Inr w' \<Rightarrow> scaffold exec projectRoot root opts w'))
         else scaffold exec projectRoot root opts w)"

subsection \<open>The add command\<close>

text \<open>
  The action of \<open>add\<close>. The two messages are printed without their colour codes. The
  component stub is built before \<open>makeFile\<close> is called, so a failing \<open>capitalize\<close> ends
  the action before any file-system call.
\<close>

definition bad_type_message :: string where
  "bad_type_message =
     ''err  type must be on of '' @ [CHR 0x27] @ ''scene'' @ [CHR 0x27] @ '', ''
       @ [CHR 0x27] @ ''object'' @ [CHR 0x27] @ '' or '' @ [CHR 0x27] @ ''component'' @ [CHR 0x27]"

definition not_in_project_message :: string where
  "not_in_project_message =
     ''err  you must execute kaboomer add inside the root of your project''"

definition addUnit :: "path \<Rightarrow> string \<Rightarrow> string \<Rightarrow> world \<Rightarrow> result" where
  "addUnit cwd type name w =
     (if type \<notin> set [''scene'', ''object'', ''component'']
      then Inl (ProcessExit 1 bad_type_message, w)
      else if \<not> exists (files w) (join cwd [''src'', ''scenes''])
      then Inl (ProcessExit 1 not_in_project_message, w)
      else
        (let variableName = normalizeName name
         in if type = ''scene''
            then makeFile (join cwd [''src'', ''scenes'', name @ ''.ts'']) cwd
                   (scene_stub variableName) w
            else if type = ''object''
            then makeFile (join cwd [''src'', ''objects'', name @ ''.ts'']) cwd
                   (object_stub variableName) w
            else if type = ''component''
            then (case capitalize variableName of
                    None \<Rightarrow> Inl (TypeError, w)
                  | Some capitalized \<Rightarrow>
                      makeFile (join cwd [''src'', ''components'', name @ ''.ts'']) cwd
                        (component_stub name variableName capitalized) w)
            else Inr w))"

subsection \<open>Notions used to state the properties\<close>

text \<open>
  A well-formed file system: whatever exists lies in a directory that exists. The root
  directory is not stored.
\<close>

definition wf_fs :: "fs \<Rightarrow> bool" where
  "wf_fs f = (\<forall>p. f p \<noteq> None \<longrightarrow> p \<noteq> [] \<and> is_dir f (butlast p))"

text \<open>No proper ancestor of \<open>p\<close> is a regular file.\<close>

definition free_way :: "fs \<Rightarrow> path \<Rightarrow> bool" where
  "free_way f p = list_all (\<lambda>q. \<not> is_file f q) (butlast (prefixes p))"

definition world_of :: "result \<Rightarrow> world" where
  "world_of r = (case r of Inl (e, w) \<Rightarrow> w | Inr w \<Rightarrow> w)"

text \<open>The file system with every missing directory on the way to \<open>p\<close> added.\<close>

definition with_dirs :: "path \<Rightarrow> fs \<Rightarrow> fs" where
  "with_dirs p f = (\<lambda>q. if q \<noteq> [] \<and> prefix q p \<and> f q = None then Some Dir else f q)"

text \<open>The events of a list are creations of directories on the way to \<open>p\<close> that were missing.\<close>

definition fresh_mkdirs :: "path \<Rightarrow> fs \<Rightarrow> event list \<Rightarrow> bool" where
  "fresh_mkdirs p f evs = (\<forall>e \<in> set evs. \<exists>q. e = Mkdir q \<and> prefix q p \<and> \<not> exists f q)"

text \<open>
  A run below a project root is a run of the same calls in a file system of its own,
  placed at the root: \<open>graft\<close> puts a relative file system \<open>r\<close> below \<open>root\<close> in \<open>base\<close>,
  \<open>lift_world\<close> does the same for a world and its trace.
\<close>

definition graft :: "path \<Rightarrow> fs \<Rightarrow> fs \<Rightarrow> fs" where
  "graft root base r = (\<lambda>q. if strict_prefix root q then r (drop (length root) q) else base q)"

fun shift_event :: "path \<Rightarrow> event \<Rightarrow> event" where
  "shift_event root (Mkdir p) = Mkdir (root @ p)"
| "shift_event root (WriteFile p c) = WriteFile (root @ p) c"
| "shift_event root (RmRecursive p) = RmRecursive (root @ p)"
| "shift_event root (Exec c d) = Exec c (root @ d)"

definition lift_world :: "path \<Rightarrow> fs \<Rightarrow> event list \<Rightarrow> world \<Rightarrow> world" where
  "lift_world root base tr0 wr =
     \<lparr>files = graft root base (files wr), trace = tr0 @ map (shift_event root) (trace wr)\<rparr>"

definition lift_result :: "path \<Rightarrow> fs \<Rightarrow> event list \<Rightarrow> result \<Rightarrow> result" where
  "lift_result root base tr0 r =
     (case r of
        Inl (e, wr) \<Rightarrow> Inl (e, lift_world root base tr0 wr)
      | Inr wr \<Rightarrow> Inr (lift_world root base tr0 wr))"

definition sim :: "path \<Rightarrow> fs \<Rightarrow> event list \<Rightarrow> (world \<Rightarrow> result) \<Rightarrow> (world \<Rightarrow> result) \<Rightarrow> bool" where
  "sim root base tr0 f g =
     (\<forall>wr. f (lift_world root base tr0 wr) = lift_result root base tr0 (g wr))"

definition empty_world :: world where
  "empty_world = \<lparr>files = Map.empty, trace = []\<rparr>"

text \<open>
  What a run is expected to leave below the project root: the fixed files with their
  texts, the texts of the chosen template, and the directories of the template together
  with the directories on the way to a file or to a directory of the template.
\<close>

definition auxiliary_files :: "string \<Rightarrow> opts \<Rightarrow> (path \<times> string) list" where
  "auxiliary_files root opts =
     [([''public'', ''manifest.json''], manifest_json),
      ([''index.html''], index_html),
      ([''src'', ''index.ts''], index_ts),
      ([''src'', ''constants.ts''], constants_ts),
      ([''.prettierrc''], prettierrc),
      ([''tsconfig.json''], tsconfig_json),
      ([''vite.config.js''], vite_config_js),
      ([''package.json''], package_json (package_name root))]
     @ (if nogit opts then [] else [([''.gitignore''], gitignore)])"

definition template_files :: "template_name \<Rightarrow> (path \<times> string) list" where
  "template_files t =
     concat (map (\<lambda>(p, v). case v of Null \<Rightarrow> [] | Text c \<Rightarrow> [(split_slash p, c)]) (templates t))"



text \<open>
  The events of a run on a fresh root, with paths relative to the root, and the world
  that a list of creations and writes leaves behind.
\<close>

definition template_events :: "template_name \<Rightarrow> event list" where
  "template_events t =
     (case t of
        Empty \<Rightarrow>
          [Mkdir [''src''],
           Mkdir [''src'', ''objects''],
           Mkdir [''src'', ''components''],
           Mkdir [''src'', ''scenes''],
           WriteFile [''src'', ''scenes'', ''main.ts''] empty_main_ts]
      | Basic \<Rightarrow>
          [Mkdir [''src''],
           Mkdir [''src'', ''components''],
           Mkdir [''src'', ''objects''],
           WriteFile [''src'', ''objects'', ''message.ts''] basic_message_ts,
           Mkdir [''src'', ''scenes''],
           WriteFile [''src'', ''scenes'', ''main.ts''] basic_main_ts,
           WriteFile [''src'', ''scenes'', ''other.ts''] basic_other_ts])"

definition events_before_git :: "template_name \<Rightarrow> event list" where
  "events_before_git t =
     [Mkdir [''public''],
      WriteFile [''public'', ''manifest.json''] manifest_json,
      Mkdir [''assets'']]
     @ template_events t
     @ [WriteFile [''src'', ''index.ts''] index_ts,
        WriteFile [''src'', ''constants.ts''] constants_ts,
        WriteFile [''index.html''] index_html,
        WriteFile [''.prettierrc''] prettierrc]"

definition git_events :: "event list" where
  "git_events = [WriteFile [''.gitignore''] gitignore, Exec ''git init'' []]"

definition events_after_git :: "string \<Rightarrow> event list" where
  "events_after_git root =
     [WriteFile [''package.json''] (package_json (package_name root)),
      WriteFile [''tsconfig.json''] tsconfig_json,
      WriteFile [''vite.config.js''] vite_config_js]"

fun entry_of :: "event \<Rightarrow> (path \<times> node) list" where
  "entry_of (Mkdir p) = [(p, Dir)]"
| "entry_of (WriteFile p c) = [(p, File c)]"
| "entry_of (RmRecursive p) = []"
| "entry_of (Exec c d) = []"

definition world_after :: "event list \<Rightarrow> world" where
  "world_after evs = \<lparr>files = map_of (rev (concat (map entry_of evs))), trace = evs\<rparr>"

definition fresh_run_events :: "string \<Rightarrow> opts \<Rightarrow> event list" where
  "fresh_run_events root opts =
     events_before_git (template opts)
     @ (if nogit opts then [] else git_events)
     @ events_after_git root"

text \<open>
  The world a run on a fresh root ends in, relative to the root: what its events leave
  and, when the version-control command has run, what the child left at \<open>.git\<close>.
\<close>

definition fresh_run_world :: "string \<Rightarrow> opts \<Rightarrow> fs \<Rightarrow> world" where
  "fresh_run_world root opts left =
     (if nogit opts then world_after (fresh_run_events root opts)
      else (world_after (fresh_run_events root opts))
             \<lparr>files := child_leaves [] left (files (world_after (fresh_run_events root opts)))\<rparr>)"

text \<open>
  Concrete inputs: a working directory \<open>/w\<close> that exists and is empty; a child that
  exits with a given code and leaves nothing, one that cannot be spawned, and one that
  exits with code 0 and leaves a repository, reduced to its directory and one file.
\<close>

definition demo_world :: world where
  "demo_world = \<lparr>files = [[''w''] \<mapsto> Dir], trace = []\<rparr>"

definition demo_opts :: opts where
  "demo_opts = \<lparr>force = False, template = Basic, nogit = False\<rparr>"

definition exec_exits :: "nat \<Rightarrow> string \<Rightarrow> path \<Rightarrow> cmd_result" where
  "exec_exits n command cwd = Exited n Map.empty"

definition exec_fails :: "string \<Rightarrow> path \<Rightarrow> cmd_result" where
  "exec_fails command cwd = SpawnFailed"



text \<open>The fixed files that the run writes only after the version-control command.\<close>

definition written_after_git :: "path list" where
  "written_after_git = [[''package.json''], [''tsconfig.json''], [''vite.config.js'']]"

text \<open>A scaffolded project in \<open>/w\<close>, reduced to the directories the add command looks at.\<close>

definition demo_project :: world where
  "demo_project =
     \<lparr>files = [[''w''] \<mapsto> Dir, [''w'', ''src''] \<mapsto> Dir, [''w'', ''src'', ''scenes''] \<mapsto> Dir],
      trace = []\<rparr>"

text \<open>A root \<open>/w\<close> that already exists and holds a file.\<close>

definition demo_existing :: world where
  "demo_existing = \<lparr>files = [[''w''] \<mapsto> Dir, [''w'', ''old.txt''] \<mapsto> File ''old''], trace = []\<rparr>"

definition demo_forced :: opts where
  "demo_forced = \<lparr>force = True, template = Empty, nogit = True\<rparr>"

text \<open>
  Statements about every call of a run, failed or not, speak about the events the run
  appends to the trace. \<open>confined P f\<close>: whatever \<open>f\<close> does, it only appends events that
  satisfy \<open>P\<close>.
\<close>

definition new_events :: "(world \<Rightarrow> result) \<Rightarrow> world \<Rightarrow> event list" where
  "new_events f w = drop (length (trace w)) (trace (world_of (f w)))"

definition confined :: "(event \<Rightarrow> bool) \<Rightarrow> (world \<Rightarrow> result) \<Rightarrow> bool" where
  "confined P f = (\<forall>w. \<exists>evs. trace (world_of (f w)) = trace w @ evs \<and> list_all P evs)"

text \<open>
  What a run may touch, relative to the project root \<open>r\<close>: it writes files strictly below
  \<open>r\<close>; it creates \<open>r\<close>, directories below \<open>r\<close> and ancestors of \<open>r\<close>; it removes \<open>r\<close> itself;
  it runs commands in \<open>r\<close>.
\<close>

fun touches_root :: "path \<Rightarrow> event \<Rightarrow> bool" where
  "touches_root r (WriteFile p c) = strict_prefix r p"
| "touches_root r (Mkdir p) = (prefix r p \<or> prefix p r)"
| "touches_root r (RmRecursive p) = (p = r)"
| "touches_root r (Exec c d) = (d = r)"

text \<open>Every write is one of the given entries, placed below \<open>r\<close>.\<close>

fun writes_expected :: "path \<Rightarrow> (path \<times> string) list \<Rightarrow> event \<Rightarrow> bool" where
  "writes_expected r entries (WriteFile p c) = ((p, c) \<in> set (map (\<lambda>(rel, c). (r @ rel, c)) entries))"
| "writes_expected r entries (Mkdir p) = True"
| "writes_expected r entries (RmRecursive p) = True"
| "writes_expected r entries (Exec c d) = True"

text \<open>The fixed files whose text does not depend on the invocation.\<close>

definition invariant_files :: "(path \<times> string) list" where
  "invariant_files =
     [([''public'', ''manifest.json''], manifest_json),
      ([''index.html''], index_html),
      ([''src'', ''index.ts''], index_ts),
      ([''src'', ''constants.ts''], constants_ts),
      ([''.prettierrc''], prettierrc),
      ([''tsconfig.json''], tsconfig_json),
      ([''vite.config.js''], vite_config_js)]"

text \<open>
  The base name of a path in the sense of \<open>path.basename\<close>: its last non-empty segment.
  The program never computes it; it serves to state what the specification says about
  the declared package name.
\<close>

definition basename :: "string \<Rightarrow> string" where
  "basename p = (case filter (\<lambda>s. s \<noteq> []) (split_slash p) of [] \<Rightarrow> [] | s # ss \<Rightarrow> last (s # ss))"

text \<open>
  The meaning of a pattern as a set of strings, against which the matcher is checked,
  and the strings the package-name pattern is meant to accept: a plain name starts with
  a lower-case letter, a digit, \<open>-\<close> or \<open>~\<close> and goes on with these or \<open>.\<close> or \<open>_\<close>.
\<close>

inductive_set star :: "string set \<Rightarrow> string set" for A :: "string set" where
  star_empty: "[] \<in> star A"
| star_more: "u \<in> A \<Longrightarrow> v \<in> star A \<Longrightarrow> u @ v \<in> star A"

fun lang :: "regex \<Rightarrow> string set" where
  "lang Zero = {}"
| "lang One = {[]}"
| "lang (Class cs) = (\<lambda>c. [c]) ` set cs"
| "lang (Seq r s) = {u @ v | u v. u \<in> lang r \<and> v \<in> lang s}"
| "lang (Alt r s) = lang r \<union> lang s"
| "lang (Star r) = star (lang r)"

definition plain_name :: "string \<Rightarrow> bool" where
  "plain_name s =
     (case s of
        [] \<Rightarrow> False
      | c # cs \<Rightarrow> c \<in> set (lower_letters @ digits @ ''-~'')
                 \<and> list_all (\<lambda>d. d \<in> set (lower_letters @ digits @ ''-._~'')) cs)"



section \<open>Properties\<close>

subsection \<open>Well-formed file systems and the result of makeFolders\<close>

lemma exists_not_file_is_dir: "exists f p \<Longrightarrow> \<not> is_file f p \<Longrightarrow> is_dir f p"
  by (cases "f p"; cases "the (f p)") (auto simp: exists_def is_file_def is_dir_def)

lemma is_dir_exists: "is_dir f p \<Longrightarrow> exists f p"
  by (auto simp: exists_def is_dir_def)

lemma wf_ancestors_dir:
  "wf_fs f \<Longrightarrow> exists f q \<Longrightarrow> strict_prefix p q \<Longrightarrow> is_dir f p"
proof (induction q rule: rev_induct)
  case Nil
  then show ?case by simp
next
  case (snoc y ys)
  from snoc.prems(2) have fq: "f (ys @ [y]) \<noteq> None"
    by (simp add: exists_def)
  with snoc.prems(1) have d: "is_dir f ys"
    by (auto simp: wf_fs_def)
  from snoc.prems(3) have "prefix p ys"
    by (auto simp: strict_prefix_def)
  then consider "p = ys" | "strict_prefix p ys"
    by (auto simp: strict_prefix_def)
  then show ?case
  proof cases
    case 1
    with d show ?thesis by simp
  next
    case 2
    with snoc.IH snoc.prems(1) d show ?thesis
      by (simp add: is_dir_exists)
  qed
qed

lemma wf_prefix_exists: "wf_fs f \<Longrightarrow> exists f q \<Longrightarrow> prefix p q \<Longrightarrow> exists f p"
  using wf_ancestors_dir [of f q p] by (cases "p = q") (auto simp: strict_prefix_def is_dir_exists)

lemma with_dirs_Nil: "with_dirs [] f = f"
  by (rule ext) (auto simp: with_dirs_def)

lemma with_dirs_all_exist:
  assumes "wf_fs f" "exists f p"
  shows "with_dirs p f = f"
proof (rule ext)
  fix q
  show "with_dirs p f q = f q"
    using wf_prefix_exists [OF assms, of q] by (auto simp: with_dirs_def exists_def)
qed

lemma with_dirs_snoc_parent_exists:
  assumes "wf_fs f" "exists f xs" "f (xs @ [x]) = None"
  shows "(f(xs @ [x] \<mapsto> Dir)) = with_dirs (xs @ [x]) f"
proof (rule ext)
  fix q
  show "(f(xs @ [x] \<mapsto> Dir)) q = with_dirs (xs @ [x]) f q"
    using wf_prefix_exists [OF assms(1,2), of q] assms(3)
    by (auto simp: with_dirs_def exists_def)
qed

lemma with_dirs_snoc:
  assumes "f (xs @ [x]) = None"
  shows "((with_dirs xs f)(xs @ [x] \<mapsto> Dir)) = with_dirs (xs @ [x]) f"
proof (rule ext)
  fix q
  show "((with_dirs xs f)(xs @ [x] \<mapsto> Dir)) q = with_dirs (xs @ [x]) f q"
    using assms by (auto simp: with_dirs_def)
qed

lemma makeFolders_Nil: "makeFolders [] w = Inr w"
  by (subst makeFolders.simps) (simp add: dirname_def exists_def mkdir_if_missing_def)

lemma makeFolders_present:
  "exists (files w) (xs @ [x]) \<Longrightarrow> exists (files w) xs \<Longrightarrow> makeFolders (xs @ [x]) w = Inr w"
  by (subst makeFolders.simps) (simp add: dirname_def mkdir_if_missing_def)

lemma makeFolders_parent_present:
  "\<not> exists (files w) (xs @ [x]) \<Longrightarrow> exists (files w) xs \<Longrightarrow> is_dir (files w) xs \<Longrightarrow>
   makeFolders (xs @ [x]) w =
     Inr (w\<lparr>files := (files w)(xs @ [x] \<mapsto> Dir), trace := trace w @ [Mkdir (xs @ [x])]\<rparr>)"
  by (subst makeFolders.simps) (simp add: dirname_def mkdir_if_missing_def mkdir_def)

lemma makeFolders_parent_missing:
  assumes missing: "\<not> exists (files w) xs"
    and mf: "makeFolders xs w = Inr (w\<lparr>files := with_dirs xs (files w), trace := trace w @ evs\<rparr>)"
    and none: "files w (xs @ [x]) = None"
  shows "makeFolders (xs @ [x]) w =
     Inr (w\<lparr>files := (with_dirs xs (files w))(xs @ [x] \<mapsto> Dir),
           trace := trace w @ evs @ [Mkdir (xs @ [x])]\<rparr>)"
proof -
  have xs_ne: "xs \<noteq> []"
    using missing by (auto simp: exists_def)
  have wd: "with_dirs xs (files w) xs = Some Dir" "with_dirs xs (files w) (xs @ [x]) = None"
    using missing none xs_ne by (auto simp: with_dirs_def exists_def)
  show ?thesis
    using missing mf wd
    by (subst makeFolders.simps)
       (simp add: dirname_def mkdir_if_missing_def mkdir_def exists_def is_dir_def)
qed

lemma fresh_mkdirs_Nil: "fresh_mkdirs p f []"
  by (simp add: fresh_mkdirs_def)

lemma fresh_mkdirs_single: "\<not> exists f p \<Longrightarrow> fresh_mkdirs p f [Mkdir p]"
  by (simp add: fresh_mkdirs_def)

lemma fresh_mkdirs_snoc:
  "fresh_mkdirs xs f evs \<Longrightarrow> \<not> exists f (xs @ [x]) \<Longrightarrow>
   fresh_mkdirs (xs @ [x]) f (evs @ [Mkdir (xs @ [x])])"
  unfolding fresh_mkdirs_def by (auto simp: prefix_def)

lemma strict_prefix_snocI: "strict_prefix q xs \<Longrightarrow> strict_prefix q (xs @ [x])"
  by (metis prefix_order.dual_order.strict_trans strict_prefixI')

lemma strict_prefix_snoc_self: "strict_prefix xs (xs @ [x])"
  by (simp add: strict_prefix_def)

lemma wf_child_missing: "wf_fs f \<Longrightarrow> \<not> exists f xs \<Longrightarrow> \<not> exists f (xs @ [x])"
  using wf_prefix_exists [of f "xs @ [x]" xs] by auto

lemma makeFolders_closed:
  assumes "wf_fs (files w)"
    and "\<forall>q. strict_prefix q p \<longrightarrow> \<not> is_file (files w) q"
  shows "\<exists>evs. makeFolders p w = Inr (w\<lparr>files := with_dirs p (files w), trace := trace w @ evs\<rparr>)
          \<and> fresh_mkdirs p (files w) evs"
  using assms
proof (induction p rule: rev_induct)
  case Nil
  show ?case
    by (rule exI [of _ "[]"]) (simp add: makeFolders_Nil with_dirs_Nil fresh_mkdirs_Nil)
next
  case (snoc x xs)
  let ?p = "xs @ [x]"
  let ?f = "files w"
  have nf: "\<not> is_file ?f xs"
    using snoc.prems(2) strict_prefix_snoc_self [of xs x] by blast
  show ?case
  proof (cases "exists ?f xs")
    case True
    then have dx: "is_dir ?f xs"
      using nf by (rule exists_not_file_is_dir)
    show ?thesis
    proof (cases "exists ?f ?p")
      case present: True
      show ?thesis
        by (rule exI [of _ "[]"])
           (simp add: makeFolders_present [OF present True]
              with_dirs_all_exist [of ?f ?p, OF snoc.prems(1) present] fresh_mkdirs_Nil)
    next
      case False
      then have none: "?f ?p = None"
        by (simp add: exists_def)
      show ?thesis
        by (rule exI [of _ "[Mkdir ?p]"])
           (simp add: makeFolders_parent_present [OF False True dx]
              with_dirs_snoc_parent_exists [of ?f xs x, OF snoc.prems(1) True none]
              fresh_mkdirs_single [OF False])
    qed
  next
    case False
    have "\<forall>q. strict_prefix q xs \<longrightarrow> \<not> is_file ?f q"
      using snoc.prems(2) strict_prefix_snocI [of _ xs x] by blast
    from snoc.IH [OF snoc.prems(1) this]
    obtain evs where mf: "makeFolders xs w = Inr (w\<lparr>files := with_dirs xs ?f, trace := trace w @ evs\<rparr>)"
      and evs: "fresh_mkdirs xs ?f evs"
      by (elim exE conjE)
    have nop: "\<not> exists ?f ?p"
      using wf_child_missing [OF snoc.prems(1) False] .
    then have none: "?f ?p = None"
      by (simp add: exists_def)
    show ?thesis
      by (rule exI [of _ "evs @ [Mkdir ?p]"])
         (simp add: makeFolders_parent_missing [OF False mf none]
            with_dirs_snoc [of ?f xs x, OF none] fresh_mkdirs_snoc [OF evs nop])
  qed
qed

subsection \<open>Calls below a directory are calls in a file system of its own\<close>

lemma exists_graft:
  "is_dir base root \<Longrightarrow> exists (graft root base r) (root @ rel) = exists r rel"
  by (cases "rel = []") (auto simp: exists_def graft_def is_dir_def strict_prefix_def)

lemma is_dir_graft:
  "is_dir base root \<Longrightarrow> is_dir (graft root base r) (root @ rel) = is_dir r rel"
  by (cases "rel = []") (auto simp: graft_def is_dir_def strict_prefix_def)

lemma exists_Nil [simp]: "exists f []"
  by (simp add: exists_def)

lemma is_dir_Nil [simp]: "is_dir f []"
  by (simp add: is_dir_def)

lemma exists_graft_root: "is_dir base root \<Longrightarrow> exists (graft root base r) root"
  using exists_graft [of base root r "[]"] by simp

lemma is_dir_graft_root: "is_dir base root \<Longrightarrow> is_dir (graft root base r) root"
  using is_dir_graft [of base root r "[]"] by simp

lemma not_strict_prefix_butlast: "\<not> strict_prefix root (butlast root)"
proof
  assume "strict_prefix root (butlast root)"
  then have "length root < length (butlast root)"
    by (rule prefix_length_less)
  then show False
    by simp
qed

lemma graft_dirname_root: "graft root base r (dirname root) = base (dirname root)"
  by (simp add: graft_def dirname_def not_strict_prefix_butlast)

lemma graft_upd:
  assumes "rel \<noteq> []"
  shows "(graft root base r)(root @ rel \<mapsto> v) = graft root base (r(rel \<mapsto> v))"
proof (rule ext)
  fix q
  show "((graft root base r)(root @ rel \<mapsto> v)) q = graft root base (r(rel \<mapsto> v)) q"
  proof (cases "strict_prefix root q")
    case True
    then obtain us where q: "q = root @ us"
      by (auto simp: strict_prefix_def prefix_def)
    with True assms show ?thesis
      by (simp add: graft_def)
  next
    case False
    then have "q \<noteq> root @ rel"
      using assms by (auto simp: strict_prefix_def)
    with False show ?thesis
      by (simp add: graft_def)
  qed
qed

lemma dirname_append: "rel \<noteq> [] \<Longrightarrow> dirname (root @ rel) = root @ dirname rel"
  by (simp add: dirname_def butlast_append)

lemma lift_world_simps [simp]:
  "files (lift_world root base tr0 wr) = graft root base (files wr)"
  "trace (lift_world root base tr0 wr) = tr0 @ map (shift_event root) (trace wr)"
  by (simp_all add: lift_world_def)

lemma lift_result_simps [simp]:
  "lift_result root base tr0 (Inl (e, wr)) = Inl (e, lift_world root base tr0 wr)"
  "lift_result root base tr0 (Inr wr) = Inr (lift_world root base tr0 wr)"
  by (simp_all add: lift_result_def)

lemma lift_world_update:
  "rel \<noteq> [] \<Longrightarrow>
   (lift_world root base tr0 wr)\<lparr>files := (graft root base (files wr))(root @ rel \<mapsto> v),
      trace := (tr0 @ map (shift_event root) (trace wr)) @ [shift_event root e]\<rparr>
   = lift_world root base tr0 (wr\<lparr>files := (files wr)(rel \<mapsto> v), trace := trace wr @ [e]\<rparr>)"
  by (simp add: lift_world_def graft_upd)

lemma mkdir_sim:
  assumes "is_dir base root"
  shows "mkdir (root @ rel) (lift_world root base tr0 wr) = lift_result root base tr0 (mkdir rel wr)"
proof (cases "rel = []")
  case True
  then show ?thesis
    using exists_graft_root [OF assms] by (simp add: mkdir_def)
next
  case False
  then show ?thesis
    using lift_world_update [OF False, where root = root and base = base and ?tr0.0 = tr0
        and wr = wr and v = Dir and e = "Mkdir rel"]
    by (simp add: mkdir_def dirname_append exists_graft [OF assms] is_dir_graft [OF assms])
qed

lemma writeFile_sim:
  assumes "is_dir base root"
  shows "writeFile (root @ rel) c (lift_world root base tr0 wr)
         = lift_result root base tr0 (writeFile rel c wr)"
proof (cases "rel = []")
  case True
  then show ?thesis
    using is_dir_graft_root [OF assms] by (simp add: writeFile_def)
next
  case False
  then show ?thesis
    using lift_world_update [OF False, where root = root and base = base and ?tr0.0 = tr0
        and wr = wr and v = "File c" and e = "WriteFile rel c"]
    by (simp add: writeFile_def dirname_append exists_graft [OF assms] is_dir_graft [OF assms])
qed

lemma mkdir_if_missing_sim:
  assumes "is_dir base root"
  shows "mkdir_if_missing (root @ rel) (lift_world root base tr0 wr)
         = lift_result root base tr0 (mkdir_if_missing rel wr)"
  by (simp add: mkdir_if_missing_def exists_graft [OF assms] mkdir_sim [OF assms])

lemma makeFolders_sim:
  assumes "is_dir base root" and "exists base (dirname root)"
  shows "makeFolders (root @ rel) (lift_world root base tr0 wr)
         = lift_result root base tr0 (makeFolders rel wr)"
proof (induction rel arbitrary: wr rule: rev_induct)
  case Nil
  have "exists (graft root base (files wr)) (dirname root)"
    using assms(2) by (simp add: exists_def graft_dirname_root)
  moreover have "exists (graft root base (files wr)) root"
    by (rule exists_graft_root [OF assms(1)])
  ultimately have "makeFolders root (lift_world root base tr0 wr) = Inr (lift_world root base tr0 wr)"
    by (subst makeFolders.simps) (simp add: mkdir_if_missing_def)
  then show ?case
    by (simp add: makeFolders_Nil)
next
  case (snoc x xs)
  have d: "dirname (root @ xs @ [x]) = root @ xs" "dirname (xs @ [x]) = xs"
    by (simp_all add: dirname_def butlast_append)
  show ?case
  proof (cases "exists (files wr) xs")
    case True
    then show ?thesis
      using mkdir_if_missing_sim [OF assms(1), where rel = "xs @ [x]" and ?tr0.0 = tr0 and wr = wr]
      by (subst makeFolders.simps, subst (2) makeFolders.simps)
         (simp add: d exists_graft [OF assms(1)])
  next
    case False
    show ?thesis
    proof (cases "makeFolders xs wr")
      case (Inl a)
      obtain e w1 where "a = (e, w1)"
        by (cases a)
      with Inl show ?thesis
        using False snoc.IH [of wr]
        by (subst makeFolders.simps, subst (2) makeFolders.simps)
           (simp add: d exists_graft [OF assms(1)])
    next
      case (Inr w1)
      then show ?thesis
        using False snoc.IH [of wr] mkdir_if_missing_sim [OF assms(1), where rel = "xs @ [x]" and ?tr0.0 = tr0 and wr = w1]
        by (subst makeFolders.simps, subst (2) makeFolders.simps)
           (simp add: d exists_graft [OF assms(1)])
    qed
  qed
qed

lemma makeFile_sim:
  assumes "is_dir base root" and "exists base (dirname root)" and "rel \<noteq> []"
  shows "makeFile (root @ rel) cwd c (lift_world root base tr0 wr)
         = lift_result root base tr0 (makeFile rel cwd' c wr)"
proof (cases "makeFolders (dirname rel) wr")
  case (Inl a)
  obtain e w1 where "a = (e, w1)"
    by (cases a)
  with Inl show ?thesis
    using makeFolders_sim [OF assms(1,2), where rel = "dirname rel" and ?tr0.0 = tr0 and wr = wr]
    by (simp add: makeFile_def dirname_append [OF assms(3)])
next
  case (Inr w1)
  then show ?thesis
    using makeFolders_sim [OF assms(1,2), where rel = "dirname rel" and ?tr0.0 = tr0 and wr = wr]
      writeFile_sim [OF assms(1), where rel = rel and ?tr0.0 = tr0 and wr = w1 and c = c]
    by (simp add: makeFile_def dirname_append [OF assms(3)])
qed

lemma child_leaves_graft:
  "child_leaves root left (graft root base r) = graft root base (child_leaves [] left r)"
proof (rule ext)
  fix q
  show "child_leaves root left (graft root base r) q = graft root base (child_leaves [] left r) q"
  proof (cases "strict_prefix root q")
    case True
    then obtain us where q: "q = root @ us"
      by (auto simp: strict_prefix_def prefix_def)
    with True show ?thesis
      by (simp add: child_leaves_def graft_def)
  next
    case False
    have "\<not> prefix (root @ [''.git'']) q"
    proof
      assume "prefix (root @ [''.git'']) q"
      then obtain us where "q = root @ ''.git'' # us"
        by (auto simp: prefix_def)
      with False show False
        by (simp add: strict_prefix_def)
    qed
    with False show ?thesis
      by (simp add: child_leaves_def graft_def)
  qed
qed

lemma runCommand_sim:
  "runCommand exec command root (lift_world root base tr0 wr)
   = lift_result root base tr0 (runCommand (\<lambda>c d. exec c (root @ d)) command [] wr)"
  by (simp add: runCommand_def lift_world_def Let_def child_leaves_graft split: cmd_result.splits)

lemma steps_sim:
  "list_all2 (sim root base tr0) fs gs \<Longrightarrow>
   steps fs (lift_world root base tr0 wr) = lift_result root base tr0 (steps gs wr)"
proof (induction fs gs arbitrary: wr rule: list_all2_induct)
  case Nil
  then show ?case by simp
next
  case (Cons f fs g gs)
  show ?case
  proof (cases "g wr")
    case (Inl a)
    obtain e w1 where "a = (e, w1)"
      by (cases a)
    with Inl Cons.hyps(1) show ?thesis
      by (simp add: sim_def)
  next
    case (Inr w1)
    with Cons.hyps(1) Cons.IH [of w1] show ?thesis
      by (simp add: sim_def)
  qed
qed

lemma sim_makeFolders:
  "is_dir base root \<Longrightarrow> exists base (dirname root) \<Longrightarrow>
   sim root base tr0 (makeFolders (root @ rel)) (makeFolders rel)"
  by (simp add: sim_def makeFolders_sim)

lemma sim_makeFolders_root:
  "is_dir base root \<Longrightarrow> exists base (dirname root) \<Longrightarrow>
   sim root base tr0 (makeFolders root) (makeFolders [])"
  using sim_makeFolders [of base root tr0 "[]"] by simp

lemma sim_makeFile:
  "is_dir base root \<Longrightarrow> exists base (dirname root) \<Longrightarrow> rel \<noteq> [] \<Longrightarrow>
   sim root base tr0 (makeFile (root @ rel) cwd c) (makeFile rel cwd' c)"
  unfolding sim_def using makeFile_sim by blast

lemma sim_runCommand:
  "sim root base tr0 (runCommand exec command root) (runCommand (\<lambda>c d. exec c (root @ d)) command [])"
  by (simp add: sim_def runCommand_sim)

subsection \<open>The run in an empty file system\<close>

lemma split_slash_simps [simp]:
  "split_slash ''assets'' = [''assets'']"
  "split_slash ''src/objects'' = [''src'', ''objects'']"
  "split_slash ''src/components'' = [''src'', ''components'']"
  "split_slash ''src/scenes/main.ts'' = [''src'', ''scenes'', ''main.ts'']"
  "split_slash ''src/scenes/other.ts'' = [''src'', ''scenes'', ''other.ts'']"
  "split_slash ''src/objects/message.ts'' = [''src'', ''objects'', ''message.ts'']"
  by simp_all

lemmas run_simps = scaffold_def templates_def expand_entry_def join_def push_segment_def
   makeFile_def makeFolders.simps mkdir_if_missing_def mkdir_def writeFile_def runCommand_def
   dirname_def exists_def is_dir_def empty_world_def

lemmas expected_simps = world_after_def events_before_git_def template_events_def
   git_events_def events_after_git_def fresh_run_events_def

lemma child_leaves_outside:
  "\<not> prefix (cwd @ [''.git'']) q \<Longrightarrow> child_leaves cwd left f q = f q"
  by (simp add: child_leaves_def)


lemma child_leaves_upd:
  "\<not> prefix (cwd @ [''.git'']) p \<Longrightarrow>
   (child_leaves cwd left f)(p \<mapsto> v) = child_leaves cwd left (f(p \<mapsto> v))"
  by (rule ext) (auto simp: child_leaves_def)

lemma scaffold_rel_nogit:
  "nogit opts \<Longrightarrow>
   scaffold ex [] root opts empty_world = Inr (fresh_run_world root opts left)"
  by (cases "template opts") (simp_all add: run_simps expected_simps fresh_run_world_def)

lemma scaffold_rel_git_exited:
  "\<not> nogit opts \<Longrightarrow> ex ''git init'' [] = Exited n left \<Longrightarrow>
   scaffold ex [] root opts empty_world = Inr (fresh_run_world root opts left)"
  by (cases "template opts")
     (simp_all add: run_simps expected_simps fresh_run_world_def
        child_leaves_outside child_leaves_upd)

lemma scaffold_rel_git_failed:
  "\<not> nogit opts \<Longrightarrow> ex ''git init'' [] = SpawnFailed \<Longrightarrow>
   scaffold ex [] root opts empty_world
   = Inl (SpawnError, world_after (events_before_git (template opts) @ git_events))"
  by (cases "template opts") (simp_all add: run_simps expected_simps)

lemma scaffold_rel_success:
  assumes "nogit opts \<or> ex ''git init'' [] = Exited n left"
  shows "scaffold ex [] root opts empty_world = Inr (fresh_run_world root opts left)"
proof (cases "nogit opts")
  case True
  then show ?thesis
    by (rule scaffold_rel_nogit)
next
  case False
  with assms have "ex ''git init'' [] = Exited n left"
    by simp
  with False show ?thesis
    by (rule scaffold_rel_git_exited)
qed

subsection \<open>The scaffolding below a root\<close>

lemma join_simps:
  "join p [] = p"
  "join p (''public'' # ss) = join (p @ [''public'']) ss"
  "join p (''manifest.json'' # ss) = join (p @ [''manifest.json'']) ss"
  "join p (''assets'' # ss) = join (p @ [''assets'']) ss"
  "join p (''src'' # ss) = join (p @ [''src'']) ss"
  "join p (''objects'' # ss) = join (p @ [''objects'']) ss"
  "join p (''components'' # ss) = join (p @ [''components'']) ss"
  "join p (''scenes'' # ss) = join (p @ [''scenes'']) ss"
  "join p (''main.ts'' # ss) = join (p @ [''main.ts'']) ss"
  "join p (''other.ts'' # ss) = join (p @ [''other.ts'']) ss"
  "join p (''message.ts'' # ss) = join (p @ [''message.ts'']) ss"
  "join p (''index.ts'' # ss) = join (p @ [''index.ts'']) ss"
  "join p (''constants.ts'' # ss) = join (p @ [''constants.ts'']) ss"
  "join p (''index.html'' # ss) = join (p @ [''index.html'']) ss"
  "join p (''.prettierrc'' # ss) = join (p @ [''.prettierrc'']) ss"
  "join p (''.gitignore'' # ss) = join (p @ [''.gitignore'']) ss"
  "join p (''package.json'' # ss) = join (p @ [''package.json'']) ss"
  "join p (''tsconfig.json'' # ss) = join (p @ [''tsconfig.json'']) ss"
  "join p (''vite.config.js'' # ss) = join (p @ [''vite.config.js'']) ss"
  by (simp_all add: join_def push_segment_def)

lemma scaffold_sim:
  assumes "is_dir base pr" and "exists base (dirname pr)"
  shows "scaffold ex pr root opts (lift_world pr base tr0 wr)
         = lift_result pr base tr0 (scaffold (\<lambda>c d. ex c (pr @ d)) [] root opts wr)"
  unfolding scaffold_def
  by (rule steps_sim)
     (cases "template opts"; cases "nogit opts";
      simp add: templates_def expand_entry_def join_simps
        sim_makeFolders_root [OF assms] sim_runCommand
        sim_makeFolders [OF assms, where rel = "[_]", simplified]
        sim_makeFolders [OF assms, where rel = "[_, _]", simplified]
        sim_makeFile [OF assms, where rel = "[_]", simplified]
        sim_makeFile [OF assms, where rel = "[_, _]", simplified]
        sim_makeFile [OF assms, where rel = "[_, _, _]", simplified])

subsection \<open>A run on a fresh root\<close>

lemma with_dirs_exists_prefix: "prefix q p \<Longrightarrow> exists (with_dirs p f) q"
  by (auto simp: exists_def with_dirs_def)

lemma with_dirs_fresh_is_dir: "\<not> exists f p \<Longrightarrow> is_dir (with_dirs p f) p"
  by (auto simp: exists_def is_dir_def with_dirs_def)

lemma wf_nothing_below:
  assumes "wf_fs f" and "\<not> exists f p" and "strict_prefix p q"
  shows "f q = None"
proof (rule ccontr)
  assume "f q \<noteq> None"
  then have "exists f q"
    by (simp add: exists_def)
  from wf_prefix_exists [OF assms(1) this, of p] assms(2,3) show False
    by (simp add: strict_prefix_def)
qed

lemma graft_fresh:
  assumes "wf_fs f" and "\<not> exists f p"
  shows "graft p (with_dirs p f) Map.empty = with_dirs p f"
proof (rule ext)
  fix q
  show "graft p (with_dirs p f) Map.empty q = with_dirs p f q"
  proof (cases "strict_prefix p q")
    case True
    then have "\<not> prefix q p"
      by (auto simp: strict_prefix_def)
    with True wf_nothing_below [OF assms True] show ?thesis
      by (simp add: graft_def with_dirs_def)
  next
    case False
    then show ?thesis
      by (simp add: graft_def)
  qed
qed

lemma scaffold_skip_first:
  assumes "makeFolders pr w = Inr w1" and "makeFolders pr w1 = Inr w1"
  shows "scaffold ex pr root opts w = scaffold ex pr root opts w1"
  using assms by (simp add: scaffold_def)

lemma makeFolders_exists:
  "exists (files w) p \<Longrightarrow> exists (files w) (dirname p) \<Longrightarrow> makeFolders p w = Inr w"
  by (subst makeFolders.simps) (simp add: mkdir_if_missing_def)

lemma initProject_fresh:
  assumes wf: "wf_fs (files w)"
    and fresh: "\<not> exists (files w) (join cwd [root])"
    and nofile: "\<forall>q. strict_prefix q (join cwd [root]) \<longrightarrow> \<not> is_file (files w) q"
  shows "\<exists>evs. fresh_mkdirs (join cwd [root]) (files w) evs \<and>
           initProject cwd ex root opts w
           = lift_result (join cwd [root]) (with_dirs (join cwd [root]) (files w)) (trace w @ evs)
               (scaffold (\<lambda>c d. ex c (join cwd [root] @ d)) [] root opts empty_world)"
proof -
  let ?pr = "join cwd [root]"
  let ?base = "with_dirs ?pr (files w)"
  from makeFolders_closed [OF wf nofile]
  obtain evs where mf: "makeFolders ?pr w = Inr (w\<lparr>files := ?base, trace := trace w @ evs\<rparr>)"
    and evs: "fresh_mkdirs ?pr (files w) evs"
    by (elim exE conjE)
  let ?w1 = "w\<lparr>files := ?base, trace := trace w @ evs\<rparr>"
  have d: "is_dir ?base ?pr"
    using fresh by (rule with_dirs_fresh_is_dir)
  have e: "exists ?base (dirname ?pr)"
    by (rule with_dirs_exists_prefix) (simp add: dirname_def prefixeq_butlast)
  have w1: "?w1 = lift_world ?pr ?base (trace w @ evs) empty_world"
    by (simp add: lift_world_def empty_world_def graft_fresh [OF wf fresh])
  have idem: "makeFolders ?pr ?w1 = Inr ?w1"
    using d e by (intro makeFolders_exists) (simp_all add: is_dir_exists)
  have "initProject cwd ex root opts w = scaffold ex ?pr root opts w"
    using fresh by (simp add: initProject_def)
  also have "\<dots> = scaffold ex ?pr root opts ?w1"
    using mf idem by (rule scaffold_skip_first)
  also have "\<dots> = lift_result ?pr ?base (trace w @ evs)
                     (scaffold (\<lambda>c d. ex c (?pr @ d)) [] root opts empty_world)"
    unfolding w1 using d e by (rule scaffold_sim)
  finally show ?thesis
    using evs by blast
qed

subsection \<open>What makeFolders keeps and creates\<close>

lemma mkdir_if_missing_keeps:
  "mkdir_if_missing p w = Inr w' \<Longrightarrow> files w q \<noteq> None \<Longrightarrow> files w' q = files w q"
  by (auto simp: mkdir_if_missing_def mkdir_def exists_def split: if_splits)

lemma makeFolders_keeps:
  "makeFolders p w = Inr w' \<Longrightarrow> files w q \<noteq> None \<Longrightarrow> files w' q = files w q"
proof (induction p arbitrary: w w' rule: rev_induct)
  case Nil
  then show ?case
    by (simp add: makeFolders_Nil)
next
  case (snoc x xs)
  show ?case
  proof (cases "exists (files w) xs")
    case True
    with snoc.prems(1) have "mkdir_if_missing (xs @ [x]) w = Inr w'"
      by (subst (asm) makeFolders.simps) (simp add: dirname_def)
    then show ?thesis
      using snoc.prems(2) by (rule mkdir_if_missing_keeps)
  next
    case False
    with snoc.prems(1) obtain w1 where a: "makeFolders xs w = Inr w1"
      and b: "mkdir_if_missing (xs @ [x]) w1 = Inr w'"
      by (subst (asm) makeFolders.simps) (auto simp: dirname_def split: sum.splits)
    from snoc.IH [OF a snoc.prems(2)] have c: "files w1 q = files w q" .
    with snoc.prems(2) have "files w1 q \<noteq> None"
      by simp
    with b have "files w' q = files w1 q"
      by (rule mkdir_if_missing_keeps)
    with c show ?thesis
      by simp
  qed
qed





subsection \<open>Directory creation\<close>





lemma butlast_prefixes: "set (butlast (prefixes p)) = {q. strict_prefix q p}"
proof (cases p rule: rev_cases)
  case Nil
  then show ?thesis by simp
next
  case (snoc xs x)
  then show ?thesis
    by (auto simp: strict_prefix_def)
qed

lemma free_way_iff: "free_way f p \<longleftrightarrow> (\<forall>q. strict_prefix q p \<longrightarrow> \<not> is_file f q)"
  by (simp add: free_way_def list_all_iff butlast_prefixes)



subsection \<open>The tree of a fresh run\<close>

lemma world_after_lookup:
  assumes "distinct (map fst (concat (map entry_of evs)))"
  shows "(files (world_after evs) rel = Some v) = ((rel, v) \<in> set (concat (map entry_of evs)))"
proof -
  have "distinct (map fst (rev (concat (map entry_of evs))))"
    using assms by (simp add: rev_map [symmetric])
  then show ?thesis
    by (simp add: world_after_def)
qed





subsection \<open>The files of a fresh run\<close>

lemma graft_below:
  "rel \<noteq> [] \<Longrightarrow> graft pr base r (pr @ rel) = r rel"
  by (simp add: graft_def strict_prefix_def)

lemma graft_outside:
  "\<not> strict_prefix pr q \<Longrightarrow> graft pr base r q = base q"
  by (simp add: graft_def)






lemma wf_demo_world: "wf_fs (files demo_world)"
  by (auto simp: wf_fs_def demo_world_def)

lemma join_demo: "join [''w''] [''game''] = [''w'', ''game'']"
  by (simp add: join_def push_segment_def)

lemma fresh_demo_world: "\<not> exists (files demo_world) [''w'', ''game'']"
  by (simp add: exists_def demo_world_def)

lemma free_way_demo_world: "free_way (files demo_world) [''w'', ''game'']"
  by (simp add: free_way_def is_file_def demo_world_def)





subsection \<open>The version-control step\<close>

lemma before_git_distinct:
  "distinct (map fst (concat (map entry_of (events_before_git t @ git_events))))"
  by (cases t) (simp_all add: expected_simps)

lemma before_git_files:
  "\<not> nogit opts \<Longrightarrow>
   ((rel, File c) \<in> set (concat (map entry_of (events_before_git (template opts) @ git_events))))
   = ((rel, c) \<in> set (auxiliary_files root opts) \<union> set (template_files (template opts))
      \<and> rel \<notin> set written_after_git)"
  by (cases "template opts")
     (auto simp: expected_simps auxiliary_files_def template_files_def templates_def
        written_after_git_def)

lemma before_git_no_root:
  "([], v) \<notin> set (concat (map entry_of (events_before_git t @ git_events)))"
  by (cases t) (auto simp: expected_simps)

lemma before_git_below:
  "files (lift_world pr base tr0 (world_after (events_before_git t @ git_events))) (pr @ rel) = Some v
   \<longleftrightarrow> (if rel = [] then base pr = Some v
        else (rel, v) \<in> set (concat (map entry_of (events_before_git t @ git_events))))"
  by (simp add: graft_below graft_outside world_after_lookup [OF before_git_distinct])

lemma fresh_run_events_git:
  "\<not> nogit opts \<Longrightarrow>
   fresh_run_events root opts
   = (events_before_git (template opts) @ [WriteFile [''.gitignore''] gitignore])
     @ Exec ''git init'' [] # events_after_git root"
  by (simp add: fresh_run_events_def git_events_def)

lemma trace_fresh_run_world:
  "trace (fresh_run_world root opts left) = trace (world_after (fresh_run_events root opts))"
  by (simp add: fresh_run_world_def)

text \<open>
  C1. With \<open>nogit = false\<close> on a fresh root: when the version-control command cannot be
  spawned, the run fails at that call, and the world reached holds exactly the files
  written before it, that is the auxiliary and template files without the package
  descriptor, the type configuration and the build configuration; nothing is removed
  again. When the command exits, with whatever code and whatever it left on disk, the
  run goes on and succeeds, and its last events are the command followed by the writes
  of those three files.
\<close>

theorem git_init_outcome:
  assumes "wf_fs (files w)"
    and "\<not> exists (files w) (join cwd [root])"
    and "free_way (files w) (join cwd [root])"
    and "\<not> nogit opts"
  shows "(ex ''git init'' (join cwd [root]) = SpawnFailed \<longrightarrow>
            (\<exists>w'. initProject cwd ex root opts w = Inl (SpawnError, w')
               \<and> (\<forall>rel c. files w' (join cwd [root] @ rel) = Some (File c)
                     \<longleftrightarrow> (rel, c) \<in> set (auxiliary_files root opts)
                                    \<union> set (template_files (template opts))
                         \<and> rel \<notin> set written_after_git)))
         \<and> (\<forall>n left. ex ''git init'' (join cwd [root]) = Exited n left \<longrightarrow>
            (\<exists>w' tr. initProject cwd ex root opts w = Inr w'
               \<and> trace w' = tr @ map (shift_event (join cwd [root]))
                                   (Exec ''git init'' [] # events_after_git root)))"
proof -
  let ?pr = "join cwd [root]"
  let ?base = "with_dirs ?pr (files w)"
  let ?ex = "\<lambda>c d. ex c (?pr @ d)"
  from initProject_fresh
    [where ex = ex and opts = opts, OF assms(1,2) assms(3) [unfolded free_way_iff]]
  obtain evs where run: "initProject cwd ex root opts w
      = lift_result ?pr ?base (trace w @ evs) (scaffold ?ex [] root opts empty_world)"
    by (elim exE conjE)
  have root_dir: "?base ?pr = Some Dir"
    using with_dirs_fresh_is_dir [OF assms(2)] assms(2) by (auto simp: is_dir_def exists_def)
  have failed: "\<exists>w'. initProject cwd ex root opts w = Inl (SpawnError, w')
               \<and> (\<forall>rel c. files w' (?pr @ rel) = Some (File c)
                     \<longleftrightarrow> (rel, c) \<in> set (auxiliary_files root opts)
                                    \<union> set (template_files (template opts))
                         \<and> rel \<notin> set written_after_git)"
    if sp: "ex ''git init'' ?pr = SpawnFailed"
  proof -
    let ?w' = "lift_world ?pr ?base (trace w @ evs)
                 (world_after (events_before_git (template opts) @ git_events))"
    have "?ex ''git init'' [] = SpawnFailed"
      using sp by simp
    from scaffold_rel_git_failed
      [where ex = ?ex and opts = opts and root = root, OF assms(4) this]
    have res: "initProject cwd ex root opts w = Inl (SpawnError, ?w')"
      using run by simp
    have f: "(files ?w' (?pr @ rel) = Some (File c))
             = ((rel, c) \<in> set (auxiliary_files root opts) \<union> set (template_files (template opts))
                \<and> rel \<notin> set written_after_git)"
      for rel c
    proof (cases "rel = []")
      case True
      have "\<not> (([], c) \<in> set (auxiliary_files root opts) \<union> set (template_files (template opts))
                \<and> [] \<notin> set written_after_git)"
        using before_git_no_root [of "File c" "template opts"]
        unfolding before_git_files [OF assms(4), of _ _ root] .
      with True root_dir show ?thesis
        unfolding before_git_below by simp
    next
      case False
      then show ?thesis
        unfolding before_git_below before_git_files [OF assms(4), of _ _ root] by simp
    qed
    from res f show ?thesis
      by blast
  qed
  have exited: "\<exists>w' tr. initProject cwd ex root opts w = Inr w'
               \<and> trace w' = tr @ map (shift_event ?pr) (Exec ''git init'' [] # events_after_git root)"
    if ex: "ex ''git init'' ?pr = Exited n left" for n left
  proof -
    let ?w' = "lift_world ?pr ?base (trace w @ evs) (fresh_run_world root opts left)"
    have "?ex ''git init'' [] = Exited n left"
      using ex by simp
    from scaffold_rel_git_exited
      [where ex = ?ex and opts = opts and root = root, OF assms(4) this]
    have res: "initProject cwd ex root opts w = Inr ?w'"
      using run by simp
    have "trace ?w' = ((trace w @ evs) @ map (shift_event ?pr)
              (events_before_git (template opts) @ [WriteFile [''.gitignore''] gitignore]))
            @ map (shift_event ?pr) (Exec ''git init'' [] # events_after_git root)"
      unfolding lift_world_simps trace_fresh_run_world world_after_def
        fresh_run_events_git [OF assms(4)]
      by simp
    with res show ?thesis
      by blast
  qed
  from failed exited show ?thesis
    by blast
qed

lemma demo_run:
  "\<exists>evs. initProject [''w''] ex ''game'' opts demo_world
     = lift_result [''w'', ''game''] (with_dirs [''w'', ''game''] (files demo_world)) evs
         (scaffold (\<lambda>c d. ex c ([''w'', ''game''] @ d)) [] ''game'' opts empty_world)"
  using initProject_fresh [where w = demo_world and cwd = "[''w'']" and root = "''game''"
      and ex = ex and opts = opts]
    wf_demo_world fresh_demo_world free_way_demo_world
  unfolding join_demo free_way_iff by blast

theorem git_init_outcome_witness:
  "wf_fs (files demo_world)
   \<and> \<not> exists (files demo_world) (join [''w''] [''game''])
   \<and> free_way (files demo_world) (join [''w''] [''game''])
   \<and> \<not> nogit demo_opts
   \<and> exec_fails ''git init'' (join [''w''] [''game'']) = SpawnFailed
   \<and> (\<exists>w'. initProject [''w''] exec_fails ''game'' demo_opts demo_world = Inl (SpawnError, w')
         \<and> files w' [''w'', ''game'', ''.gitignore''] = Some (File gitignore)
         \<and> files w' [''w'', ''game'', ''package.json''] \<noteq> Some (File (package_json ''game'')))
   \<and> exec_exits 1 ''git init'' (join [''w''] [''game'']) = Exited 1 Map.empty
   \<and> (\<exists>w' tr. initProject [''w''] (exec_exits 1) ''game'' demo_opts demo_world = Inr w'
         \<and> trace w' = tr @ [Exec ''git init'' [''w'', ''game''],
                             WriteFile [''w'', ''game'', ''package.json'']
                               (package_json (package_name ''game'')),
                             WriteFile [''w'', ''game'', ''tsconfig.json''] tsconfig_json,
                             WriteFile [''w'', ''game'', ''vite.config.js''] vite_config_js])"
proof -
  have h1: "wf_fs (files demo_world)"
    by (rule wf_demo_world)
  have h2: "\<not> exists (files demo_world) (join [''w''] [''game''])"
    by (simp add: join_demo fresh_demo_world)
  have h3: "free_way (files demo_world) (join [''w''] [''game''])"
    by (simp add: join_demo free_way_demo_world)
  have h4: "\<not> nogit demo_opts"
    by (simp add: demo_opts_def)
  have h5: "exec_fails ''git init'' (join [''w''] [''game'']) = SpawnFailed"
    by (simp add: exec_fails_def)
  have h6: "exec_exits 1 ''git init'' (join [''w''] [''game'']) = Exited 1 Map.empty"
    by (simp add: exec_exits_def)
  from git_init_outcome
    [where w = demo_world and cwd = "[''w'']" and root = "''game''" and opts = demo_opts
       and ex = exec_fails, OF h1 h2 h3 h4] h5
  obtain w1 where r1: "initProject [''w''] exec_fails ''game'' demo_opts demo_world = Inl (SpawnError, w1)"
    and f1: "\<forall>rel c. files w1 (join [''w''] [''game''] @ rel) = Some (File c)
                     \<longleftrightarrow> (rel, c) \<in> set (auxiliary_files ''game'' demo_opts)
                                    \<union> set (template_files (template demo_opts))
                         \<and> rel \<notin> set written_after_git"
    by blast
  have a: "files w1 [''w'', ''game'', ''.gitignore''] = Some (File gitignore)"
    using f1 [rule_format, of "[''.gitignore'']" gitignore]
    by (simp add: join_demo auxiliary_files_def demo_opts_def written_after_git_def)
  have b: "files w1 [''w'', ''game'', ''package.json''] \<noteq> Some (File (package_json ''game''))"
    using f1 [rule_format, of "[''package.json'']" "package_json ''game''"]
    by (simp add: join_demo written_after_git_def)
  from git_init_outcome
    [where w = demo_world and cwd = "[''w'']" and root = "''game''" and opts = demo_opts
       and ex = "exec_exits 1", OF h1 h2 h3 h4] h6
  obtain w2 tr where r2: "initProject [''w''] (exec_exits 1) ''game'' demo_opts demo_world = Inr w2"
    and t2: "trace w2 = tr @ map (shift_event (join [''w''] [''game'']))
                                   (Exec ''git init'' [] # events_after_git ''game'')"
    by blast
  have c: "trace w2 = tr @ [Exec ''git init'' [''w'', ''game''],
                             WriteFile [''w'', ''game'', ''package.json'']
                               (package_json (package_name ''game'')),
                             WriteFile [''w'', ''game'', ''tsconfig.json''] tsconfig_json,
                             WriteFile [''w'', ''game'', ''vite.config.js''] vite_config_js]"
    using t2 by (simp add: join_demo events_after_git_def)
  from h1 h2 h3 h4 h5 h6 r1 a b r2 c show ?thesis
    by blast
qed

theorem git_init_claim_counterexample:
  "\<not> isl (initProject [''w''] (exec_exits 1) ''game'' demo_opts demo_world)
   \<and> files (world_of (initProject [''w''] exec_fails ''game'' demo_opts demo_world))
       [''w'', ''game'', ''package.json''] = None"
proof -
  have nogit: "\<not> nogit demo_opts"
    by (simp add: demo_opts_def)
  obtain evs1 where "initProject [''w''] (exec_exits 1) ''game'' demo_opts demo_world
     = lift_result [''w'', ''game''] (with_dirs [''w'', ''game''] (files demo_world)) evs1
         (scaffold (\<lambda>c d. exec_exits 1 c ([''w'', ''game''] @ d)) [] ''game'' demo_opts empty_world)"
    using demo_run [of "exec_exits 1" demo_opts] by blast
  then have a: "\<not> isl (initProject [''w''] (exec_exits 1) ''game'' demo_opts demo_world)"
    using scaffold_rel_git_exited
      [where ex = "\<lambda>c d. exec_exits 1 c ([''w'', ''game''] @ d)" and opts = demo_opts
         and root = "''game''" and n = 1 and left = Map.empty, OF nogit]
    by (simp add: exec_exits_def)
  obtain evs2 where "initProject [''w''] exec_fails ''game'' demo_opts demo_world
     = lift_result [''w'', ''game''] (with_dirs [''w'', ''game''] (files demo_world)) evs2
         (scaffold (\<lambda>c d. exec_fails c ([''w'', ''game''] @ d)) [] ''game'' demo_opts empty_world)"
    using demo_run [of exec_fails demo_opts] by blast
  then have "initProject [''w''] exec_fails ''game'' demo_opts demo_world
     = Inl (SpawnError, lift_world [''w'', ''game''] (with_dirs [''w'', ''game''] (files demo_world)) evs2
         (world_after (events_before_git (template demo_opts) @ git_events)))"
    using scaffold_rel_git_failed
      [where ex = "\<lambda>c d. exec_fails c ([''w'', ''game''] @ d)" and opts = demo_opts
         and root = "''game''", OF nogit]
    by (simp add: exec_fails_def)
  then have b: "files (world_of (initProject [''w''] exec_fails ''game'' demo_opts demo_world))
       [''w'', ''game'', ''package.json''] = None"
    using graft_below [of "[''package.json'']" "[''w'', ''game'']"]
    by (simp add: world_of_def demo_opts_def expected_simps)
  from a b show ?thesis
    by blast
qed

subsection \<open>An existing root\<close>

lemma remove_subtree_below: "prefix p q \<Longrightarrow> remove_subtree p f q = None"
  by (simp add: remove_subtree_def)

lemma remove_subtree_elsewhere: "\<not> prefix p q \<Longrightarrow> remove_subtree p f q = f q"
  by (simp add: remove_subtree_def)

text \<open>
  C4. The statement is for a root argument that does not end with a separator, or
  whose entry is a directory: only then does the status call of \<open>exists\<close> succeed on
  every existing entry (on a regular file named with a trailing separator it fails, and
  the program goes on as for a fresh root). When such a root exists and \<open>force\<close> is off,
  the run ends with the "already exists" message and exit code 1 in the world it
  started in: nothing is written or removed. When \<open>force\<close> is on (and the root is not
  the root directory of the file system), the run is the scaffolding started in the
  world where the root and everything below it have been removed and nothing else has
  changed.
\<close>

theorem initProject_existing_root:
  assumes "exists (files w) (join cwd [root])"
    and "\<not> trailing_separator root \<or> is_dir (files w) (join cwd [root])"
  shows "(\<not> force opts \<longrightarrow>
            initProject cwd ex root opts w = Inl (ProcessExit 1 already_exists_message, w))
         \<and> (force opts \<and> join cwd [root] \<noteq> [] \<longrightarrow>
            initProject cwd ex root opts w
            = scaffold ex (join cwd [root]) root opts
                (w\<lparr>files := remove_subtree (join cwd [root]) (files w),
                   trace := trace w @ [RmRecursive (join cwd [root])]\<rparr>)
            \<and> (\<forall>q. prefix (join cwd [root]) q
                   \<longrightarrow> remove_subtree (join cwd [root]) (files w) q = None)
            \<and> (\<forall>q. \<not> prefix (join cwd [root]) q
                   \<longrightarrow> remove_subtree (join cwd [root]) (files w) q = files w q))"
  using assms(1)
  by (simp add: initProject_def Let_def rm_def remove_subtree_below remove_subtree_elsewhere)

lemma join_root_w: "join [] [''w''] = [''w'']"
  by (simp add: join_def push_segment_def)

theorem initProject_existing_root_witness:
  "exists (files demo_existing) (join [] [''w''])
   \<and> \<not> trailing_separator ''w''
   \<and> \<not> force demo_opts
   \<and> initProject [] (exec_exits 0) ''w'' demo_opts demo_existing
       = Inl (ProcessExit 1 already_exists_message, demo_existing)
   \<and> force demo_forced
   \<and> join [] [''w''] \<noteq> []
   \<and> files (world_of (initProject [] (exec_exits 0) ''w'' demo_forced demo_existing))
        [''w'', ''old.txt''] = None
   \<and> files (world_of (initProject [] (exec_exits 0) ''w'' demo_forced demo_existing))
        [''w'', ''index.html''] = Some (File index_html)"
proof -
  have h: "exists (files demo_existing) (join [] [''w''])"
    by (simp add: join_root_w exists_def demo_existing_def)
  have ns: "\<not> trailing_separator ''w''"
    by (simp add: trailing_separator_def)
  then have h': "\<not> trailing_separator ''w'' \<or> is_dir (files demo_existing) (join [] [''w''])"
    by simp
  have nf: "\<not> force demo_opts"
    by (simp add: demo_opts_def)
  have f: "force demo_forced \<and> join [] [''w''] \<noteq> []"
    by (simp add: demo_forced_def join_root_w)
  have a: "initProject [] (exec_exits 0) ''w'' demo_opts demo_existing
       = Inl (ProcessExit 1 already_exists_message, demo_existing)"
    using initProject_existing_root [where ex = "exec_exits 0" and opts = demo_opts, OF h h'] nf
    by blast
  have "initProject [] (exec_exits 0) ''w'' demo_forced demo_existing
       = scaffold (exec_exits 0) (join [] [''w'']) ''w'' demo_forced
           (demo_existing\<lparr>files := remove_subtree (join [] [''w'']) (files demo_existing),
              trace := trace demo_existing @ [RmRecursive (join [] [''w''])]\<rparr>)"
    using initProject_existing_root [where ex = "exec_exits 0" and opts = demo_forced, OF h h'] f
    by blast
  then have b: "files (world_of (initProject [] (exec_exits 0) ''w'' demo_forced demo_existing))
        [''w'', ''old.txt''] = None
     \<and> files (world_of (initProject [] (exec_exits 0) ''w'' demo_forced demo_existing))
        [''w'', ''index.html''] = Some (File index_html)"
    by (simp add: join_root_w demo_existing_def demo_forced_def run_simps remove_subtree_def
          world_of_def)
  from h ns nf f a b show ?thesis
    by blast
qed

subsection \<open>Rejections of the add command, and the derived identifier\<close>



lemma normalizeName_boss_fight: "normalizeName ''boss-fight'' = ''bossFight''"
  by (simp add: is_letter_def toUpperCase_char_def lower_letters_def upper_letters_def)

lemma join_big_boss:
  "join [''w''] [''src'', ''scenes'', ''big-boss-fight'' @ ''.ts'']
   = [''w'', ''src'', ''scenes'', ''big-boss-fight.ts'']"
  by (simp add: join_simps) (simp add: join_def push_segment_def)

text \<open>
  C3, at the failing input. The pattern of \<open>normalizeName\<close> is not global: only the first
  hyphen followed by a letter is rewritten. For the name \<open>big-boss-fight\<close> the scene stub
  declares a function named \<open>bigBoss-fight\<close>; the file keeps the raw name.
\<close>

theorem normalizeName_first_match_only:
  "normalizeName ''big-boss-fight'' = ''bigBoss-fight''
   \<and> addUnit [''w''] ''scene'' ''big-boss-fight'' demo_project
       = Inr (demo_project
               \<lparr>files := (files demo_project)
                   ([''w'', ''src'', ''scenes'', ''big-boss-fight.ts'']
                      \<mapsto> File (scene_stub ''bigBoss-fight'')),
                trace := [WriteFile [''w'', ''src'', ''scenes'', ''big-boss-fight.ts'']
                            (scene_stub ''bigBoss-fight'')]\<rparr>)"
proof -
  have n: "normalizeName ''big-boss-fight'' = ''bigBoss-fight''"
    by (simp add: is_letter_def toUpperCase_char_def lower_letters_def upper_letters_def)
  have "addUnit [''w''] ''scene'' ''big-boss-fight'' demo_project
       = makeFile [''w'', ''src'', ''scenes'', ''big-boss-fight.ts''] [''w'']
           (scene_stub ''bigBoss-fight'') demo_project"
    unfolding addUnit_def n join_big_boss
    by (simp add: join_simps exists_def demo_project_def)
  also have "\<dots> = Inr (demo_project
               \<lparr>files := (files demo_project)
                   ([''w'', ''src'', ''scenes'', ''big-boss-fight.ts'']
                      \<mapsto> File (scene_stub ''bigBoss-fight'')),
                trace := [WriteFile [''w'', ''src'', ''scenes'', ''big-boss-fight.ts'']
                            (scene_stub ''bigBoss-fight'')]\<rparr>)"
    by (simp add: makeFile_def makeFolders.simps mkdir_if_missing_def writeFile_def
          dirname_def exists_def is_dir_def demo_project_def)
  finally show ?thesis
    using n by simp
qed

subsection \<open>Adding into a missing directory\<close>















subsection \<open>What a run touches\<close>

lemma world_of_simps [simp]:
  "world_of (Inl (e, w)) = w"
  "world_of (Inr w) = w"
  by (simp_all add: world_of_def)

lemma confinedI:
  "(\<And>w. \<exists>evs. trace (world_of (f w)) = trace w @ evs \<and> list_all P evs) \<Longrightarrow> confined P f"
  by (simp add: confined_def)

lemma confinedD:
  "confined P f \<Longrightarrow> \<exists>evs. trace (world_of (f w)) = trace w @ evs \<and> list_all P evs"
  by (simp add: confined_def)

lemma confined_return: "confined P Inr"
  by (rule confinedI) simp

lemma confined_fail: "confined P (\<lambda>w. Inl (e, w))"
  by (rule confinedI) simp

lemma confined_bind:
  assumes "confined P f" and "confined P g"
  shows "confined P (\<lambda>w. case f w of Inl e \<Rightarrow> Inl e | Inr w' \<Rightarrow> g w')"
proof (rule confinedI)
  fix w
  from confinedD [OF assms(1), of w]
  obtain evs1 where f: "trace (world_of (f w)) = trace w @ evs1" "list_all P evs1"
    by blast
  show "\<exists>evs. trace (world_of (case f w of Inl e \<Rightarrow> Inl e | Inr w' \<Rightarrow> g w')) = trace w @ evs
          \<and> list_all P evs"
  proof (cases "f w")
    case (Inl a)
    obtain e w1 where "a = (e, w1)"
      by (cases a)
    with Inl f show ?thesis
      by auto
  next
    case (Inr w1)
    from confinedD [OF assms(2), of w1]
    obtain evs2 where g: "trace (world_of (g w1)) = trace w1 @ evs2" "list_all P evs2"
      by blast
    with Inr f have "trace (world_of (g w1)) = trace w @ (evs1 @ evs2)" "list_all P (evs1 @ evs2)"
      by simp_all
    with Inr show ?thesis
      by (intro exI [of _ "evs1 @ evs2"]) simp
  qed
qed

lemma confined_if:
  "confined P f \<Longrightarrow> confined P g \<Longrightarrow> confined P (\<lambda>w. if C w then f w else g w)"
  by (simp add: confined_def)

lemma confined_mkdir: "P (Mkdir p) \<Longrightarrow> confined P (mkdir p)"
  by (rule confinedI) (simp add: mkdir_def)

lemma confined_writeFile: "P (WriteFile p c) \<Longrightarrow> confined P (writeFile p c)"
  by (rule confinedI) (simp add: writeFile_def)

lemma confined_rm: "P (RmRecursive p) \<Longrightarrow> confined P (rm p)"
  by (rule confinedI) (simp add: rm_def)

lemma confined_runCommand: "P (Exec c d) \<Longrightarrow> confined P (runCommand ex c d)"
  by (rule confinedI) (simp add: runCommand_def Let_def split: cmd_result.splits)

lemma confined_mkdir_if_missing: "P (Mkdir p) \<Longrightarrow> confined P (mkdir_if_missing p)"
  unfolding mkdir_if_missing_def
  by (intro confined_if confined_mkdir confined_return)

lemma makeFolders_unfold:
  "makeFolders p =
     (\<lambda>w. if \<not> exists (files w) (dirname p)
          then (case makeFolders (dirname p) w of Inl e \<Rightarrow> Inl e | Inr w' \<Rightarrow> mkdir_if_missing p w')
          else mkdir_if_missing p w)"
  by (rule ext) (subst makeFolders.simps, rule refl)

lemma confined_makeFolders:
  "\<forall>q. prefix q p \<longrightarrow> P (Mkdir q) \<Longrightarrow> confined P (makeFolders p)"
proof (induction p rule: rev_induct)
  case Nil
  have "makeFolders [] = Inr"
    by (rule ext) (simp add: makeFolders_Nil)
  then show ?case
    by (simp add: confined_return)
next
  case (snoc x xs)
  have "confined P (makeFolders xs)"
    using snoc by simp
  moreover have "confined P (mkdir_if_missing (xs @ [x]))"
    using snoc.prems by (intro confined_mkdir_if_missing) simp
  ultimately show ?case
    by (subst makeFolders_unfold) (simp add: dirname_def confined_if confined_bind)
qed

lemma confined_makeFile:
  assumes "\<forall>q. prefix q (dirname p) \<longrightarrow> P (Mkdir q)" and "P (WriteFile p c)"
  shows "confined P (makeFile p cwd c)"
proof -
  have "makeFile p cwd c
        = (\<lambda>w. case makeFolders (dirname p) w of Inl e \<Rightarrow> Inl e | Inr w' \<Rightarrow> writeFile p c w')"
    by (rule ext) (simp add: makeFile_def)
  then show ?thesis
    using assms by (simp add: confined_bind confined_makeFolders confined_writeFile)
qed

lemma confined_steps: "list_all (confined P) fs \<Longrightarrow> confined P (steps fs)"
proof (induction fs)
  case Nil
  have "steps [] = Inr"
    by (rule ext) simp
  then show ?case
    by (simp add: confined_return)
next
  case (Cons f fs)
  have "steps (f # fs) = (\<lambda>w. case f w of Inl e \<Rightarrow> Inl e | Inr w' \<Rightarrow> steps fs w')"
    by (rule ext) simp
  with Cons show ?case
    by (simp add: confined_bind)
qed

lemma touches_Mkdir_on_way: "\<forall>q. prefix q (r @ rel) \<longrightarrow> touches_root r (Mkdir q)"
proof (intro allI impI)
  fix q
  assume "prefix q (r @ rel)"
  moreover have "prefix r (r @ rel)"
    by simp
  ultimately have "prefix q r \<or> prefix r q"
    by (rule prefix_same_cases)
  then show "touches_root r (Mkdir q)"
    by auto
qed

lemma confined_touches_makeFolders: "confined (touches_root r) (makeFolders (r @ rel))"
  by (rule confined_makeFolders) (rule touches_Mkdir_on_way)

lemma confined_touches_makeFolders_root: "confined (touches_root r) (makeFolders r)"
  using confined_touches_makeFolders [of r "[]"] by simp

lemma confined_touches_makeFile:
  assumes "rel \<noteq> []"
  shows "confined (touches_root r) (makeFile (r @ rel) cwd c)"
proof (rule confined_makeFile)
  show "\<forall>q. prefix q (dirname (r @ rel)) \<longrightarrow> touches_root r (Mkdir q)"
    unfolding dirname_append [OF assms] by (rule touches_Mkdir_on_way)
  show "touches_root r (WriteFile (r @ rel) c)"
    using assms by (simp add: strict_prefix_def)
qed

lemma confined_touches_scaffold: "confined (touches_root pr) (scaffold ex pr root opts)"
  unfolding scaffold_def
  by (rule confined_steps)
     (cases "template opts"; cases "nogit opts";
      simp add: templates_def expand_entry_def join_simps
        confined_touches_makeFolders_root confined_runCommand
        confined_touches_makeFolders [where rel = "[_]", simplified]
        confined_touches_makeFolders [where rel = "[_, _]", simplified]
        confined_touches_makeFile [where rel = "[_]", simplified]
        confined_touches_makeFile [where rel = "[_, _]", simplified]
        confined_touches_makeFile [where rel = "[_, _, _]", simplified])

lemma initProject_unfold:
  "initProject cwd ex root opts =
     (\<lambda>w. if exists (files w) (join cwd [root])
          then (if \<not> force opts then Inl (ProcessExit 1 already_exists_message, w)
                else (case rm (join cwd [root]) w of
                        Inl e \<Rightarrow> Inl e
                      | Inr w' \<Rightarrow> scaffold ex (join cwd [root]) root opts w'))
          else scaffold ex (join cwd [root]) root opts w)"
  by (rule ext) (simp add: initProject_def Let_def)

lemma confined_initProject:
  assumes "confined P (scaffold ex (join cwd [root]) root opts)"
    and "P (RmRecursive (join cwd [root]))"
  shows "confined P (initProject cwd ex root opts)"
proof -
  have "confined P (\<lambda>w. if \<not> force opts then Inl (ProcessExit 1 already_exists_message, w)
                else (case rm (join cwd [root]) w of
                        Inl e \<Rightarrow> Inl e
                      | Inr w' \<Rightarrow> scaffold ex (join cwd [root]) root opts w'))"
    using assms by (cases "force opts") (simp_all add: confined_fail confined_bind confined_rm)
  then show ?thesis
    unfolding initProject_unfold using assms(1) by (rule confined_if)
qed

text \<open>
  C8, as the program behaves. In every run, failed or not, each file is written strictly
  below the project root; each directory created is the root, lies below the root, or is
  an ancestor of the root that was missing; the only removal is that of the root itself;
  the command runs in the root.
\<close>

theorem initProject_touches_root_only:
  "\<exists>evs. trace (world_of (initProject cwd ex root opts w)) = trace w @ evs
         \<and> list_all (touches_root (join cwd [root])) evs"
  by (rule confinedD) (simp add: confined_initProject confined_touches_scaffold)

lemma join_nested: "join [''w''] [''a/b''] = [''w'', ''a'', ''b'']"
  by (simp add: join_def push_segment_def)

lemma nested_run_trace:
  "trace (world_of (initProject [''w''] (exec_exits 0) ''a/b''
                      \<lparr>force = False, template = Empty, nogit = True\<rparr> demo_world))
   = Mkdir [''w'', ''a''] # Mkdir [''w'', ''a'', ''b'']
     # map (shift_event [''w'', ''a'', ''b''])
         (fresh_run_events ''a/b'' \<lparr>force = False, template = Empty, nogit = True\<rparr>)"
  by (simp add: initProject_def Let_def join_nested demo_world_def run_simps expected_simps)

theorem initProject_touches_root_only_witness:
  "\<exists>evs. trace (world_of (initProject [''w''] (exec_exits 0) ''a/b''
                            \<lparr>force = False, template = Empty, nogit = True\<rparr> demo_world))
           = trace demo_world @ evs
         \<and> list_all (touches_root (join [''w''] [''a/b''])) evs
         \<and> hd evs = Mkdir [''w'', ''a'']"
proof -
  from initProject_touches_root_only
    [of "[''w'']" "exec_exits 0" "''a/b''" "\<lparr>force = False, template = Empty, nogit = True\<rparr>"
        demo_world]
  obtain evs where t: "trace (world_of (initProject [''w''] (exec_exits 0) ''a/b''
                            \<lparr>force = False, template = Empty, nogit = True\<rparr> demo_world))
           = trace demo_world @ evs"
    and l: "list_all (touches_root (join [''w''] [''a/b''])) evs"
    by blast
  have "trace demo_world = []"
    by (simp add: demo_world_def)
  with t have "hd evs = Mkdir [''w'', ''a'']"
    by (auto simp: nested_run_trace)
  with t l show ?thesis
    by blast
qed

theorem write_outside_root_counterexample:
  "Mkdir [''w'', ''a'']
     \<in> set (new_events (initProject [''w''] (exec_exits 0) ''a/b''
                          \<lparr>force = False, template = Empty, nogit = True\<rparr>) demo_world)
   \<and> join [''w''] [''a/b''] = [''w'', ''a'', ''b'']
   \<and> \<not> prefix [''w'', ''a'', ''b''] [''w'', ''a'']"
  by (simp add: new_events_def nested_run_trace join_nested) (simp add: demo_world_def)

subsection \<open>What a run writes\<close>

lemma new_events_confined:
  assumes "confined P f"
  shows "list_all P (new_events f w)"
proof -
  from confinedD [OF assms, of w]
  obtain evs where "trace (world_of (f w)) = trace w @ evs" and "list_all P evs"
    by blast
  then show ?thesis
    by (simp add: new_events_def)
qed

lemma confined_expected_makeFolders: "confined (writes_expected r entries) (makeFolders p)"
  by (rule confined_makeFolders) simp

lemma confined_expected_makeFile:
  "(rel, c) \<in> set entries \<Longrightarrow> confined (writes_expected r entries) (makeFile (r @ rel) cwd c)"
  by (rule confined_makeFile) (auto intro: rev_image_eqI)

lemma confined_expected_scaffold:
  "confined (writes_expected pr (auxiliary_files root opts @ template_files (template opts)))
     (scaffold ex pr root opts)"
  unfolding scaffold_def
  by (rule confined_steps)
     (cases "template opts"; cases "nogit opts";
      simp add: templates_def expand_entry_def join_simps
        confined_expected_makeFolders confined_runCommand
        confined_expected_makeFile [where rel = "[_]", simplified]
        confined_expected_makeFile [where rel = "[_, _]", simplified]
        confined_expected_makeFile [where rel = "[_, _, _]", simplified]
        auxiliary_files_def template_files_def)

lemma run_write_expected:
  assumes "WriteFile (join cwd [root] @ rel) c \<in> set (new_events (initProject cwd ex root opts) w)"
  shows "(rel, c) \<in> set (auxiliary_files root opts @ template_files (template opts))"
proof -
  let ?P = "writes_expected (join cwd [root])
              (auxiliary_files root opts @ template_files (template opts))"
  have "confined ?P (initProject cwd ex root opts)"
    by (rule confined_initProject) (simp_all add: confined_expected_scaffold)
  then have "list_all ?P (new_events (initProject cwd ex root opts) w)"
    by (rule new_events_confined)
  then have "\<forall>e \<in> set (new_events (initProject cwd ex root opts) w). ?P e"
    by (simp only: list_all_iff)
  with assms have "?P (WriteFile (join cwd [root] @ rel) c)"
    by blast
  then show ?thesis
    by auto
qed

lemma invariant_entry:
  "(rel, c) \<in> set (auxiliary_files root opts @ template_files (template opts)) \<Longrightarrow>
   rel \<in> fst ` set invariant_files \<Longrightarrow> (rel, c) \<in> set invariant_files"
  by (cases "template opts"; cases "nogit opts")
     (auto simp: auxiliary_files_def template_files_def templates_def invariant_files_def)

lemma invariant_functional:
  "(rel, c1) \<in> set invariant_files \<Longrightarrow> (rel, c2) \<in> set invariant_files \<Longrightarrow> c1 = c2"
  by (auto simp: invariant_files_def)

lemma package_entry:
  "(rel, c) \<in> set (auxiliary_files root opts @ template_files (template opts)) \<Longrightarrow>
   rel = [''package.json''] \<Longrightarrow> c = package_json (package_name root)"
  by (cases "template opts"; cases "nogit opts")
     (auto simp: auxiliary_files_def template_files_def templates_def)

lemmas regex_simps = regex_test_def PACKAGE_NAME_REGEX_def name_first_def name_rest_def
  Lit_def Opt_def lower_letters_def digits_def

lemma package_name_alpha: "package_name ''alpha'' = ''alpha''"
  by (simp add: package_name_def regex_simps)

lemma package_name_beta: "package_name ''beta'' = ''beta''"
  by (simp add: package_name_def regex_simps)

lemma package_json_inject: "package_json a = package_json b \<Longrightarrow> a = b"
  by (simp add: package_json_def text_lines_def join_str_def)

subsection \<open>Fixed files across runs\<close>

text \<open>
  C10. Take any two runs, failed or not. If both write one of the seven fixed files
  (manifest, HTML entry, source entry module, constants module, formatting config,
  type configuration, build configuration), they write the same text, the one listed in
  \<open>invariant_files\<close>. The package descriptor is the fixed file that differs: what a run
  writes there is \<open>package_json (package_name root)\<close>, and two roots give two texts.
\<close>

theorem fixed_files_same_in_all_runs:
  assumes "WriteFile (join cwd1 [root1] @ rel) c1
             \<in> set (new_events (initProject cwd1 ex1 root1 opts1) w1)"
    and "WriteFile (join cwd2 [root2] @ rel) c2
             \<in> set (new_events (initProject cwd2 ex2 root2 opts2) w2)"
    and "rel \<in> fst ` set invariant_files"
  shows "c1 = c2 \<and> (rel, c1) \<in> set invariant_files
         \<and> (\<forall>c. WriteFile (join cwd1 [root1] @ [''package.json'']) c
                   \<in> set (new_events (initProject cwd1 ex1 root1 opts1) w1)
                \<longrightarrow> c = package_json (package_name root1))
         \<and> package_json (package_name ''alpha'') \<noteq> package_json (package_name ''beta'')"
proof -
  have a: "(rel, c1) \<in> set invariant_files"
    using run_write_expected [OF assms(1)] assms(3) by (rule invariant_entry)
  have b: "(rel, c2) \<in> set invariant_files"
    using run_write_expected [OF assms(2)] assms(3) by (rule invariant_entry)
  have p: "\<forall>c. WriteFile (join cwd1 [root1] @ [''package.json'']) c
                   \<in> set (new_events (initProject cwd1 ex1 root1 opts1) w1)
                \<longrightarrow> c = package_json (package_name root1)"
    using run_write_expected [of cwd1 root1 "[''package.json'']" _ ex1 opts1 w1] package_entry
    by blast
  have d: "package_json (package_name ''alpha'') \<noteq> package_json (package_name ''beta'')"
    using package_json_inject [of "''alpha''" "''beta''"]
    by (auto simp: package_name_alpha package_name_beta)
  from invariant_functional [OF a b] a p d show ?thesis
    by blast
qed

lemma join_alpha: "join [''w''] [''alpha''] = [''w'', ''alpha'']"
  by (simp add: join_def push_segment_def)

lemma join_beta: "join [''w''] [''beta''] = [''w'', ''beta'']"
  by (simp add: join_def push_segment_def)

lemma alpha_run_events:
  "new_events (initProject [''w''] (exec_exits 0) ''alpha'' demo_opts) demo_world
   = Mkdir [''w'', ''alpha''] # map (shift_event [''w'', ''alpha'']) (fresh_run_events ''alpha'' demo_opts)"
  by (simp add: new_events_def initProject_def Let_def join_alpha demo_world_def demo_opts_def
        exec_exits_def run_simps expected_simps child_leaves_outside child_leaves_upd)

lemma beta_run_events:
  "new_events (initProject [''w''] exec_fails ''beta'' demo_forced) demo_world
   = Mkdir [''w'', ''beta''] # map (shift_event [''w'', ''beta'']) (fresh_run_events ''beta'' demo_forced)"
  by (simp add: new_events_def initProject_def Let_def join_beta demo_world_def demo_forced_def
        run_simps expected_simps)

theorem fixed_files_same_in_all_runs_witness:
  "WriteFile (join [''w''] [''alpha''] @ [''index.html'']) index_html
     \<in> set (new_events (initProject [''w''] (exec_exits 0) ''alpha'' demo_opts) demo_world)
   \<and> WriteFile (join [''w''] [''beta''] @ [''index.html'']) index_html
     \<in> set (new_events (initProject [''w''] exec_fails ''beta'' demo_forced) demo_world)
   \<and> [''index.html''] \<in> fst ` set invariant_files
   \<and> ([''index.html''], index_html) \<in> set invariant_files
   \<and> WriteFile (join [''w''] [''alpha''] @ [''package.json'']) (package_json ''alpha'')
     \<in> set (new_events (initProject [''w''] (exec_exits 0) ''alpha'' demo_opts) demo_world)
   \<and> package_json ''alpha'' = package_json (package_name ''alpha'')
   \<and> package_json (package_name ''alpha'') \<noteq> package_json (package_name ''beta'')"
proof -
  have h1: "WriteFile (join [''w''] [''alpha''] @ [''index.html'']) index_html
     \<in> set (new_events (initProject [''w''] (exec_exits 0) ''alpha'' demo_opts) demo_world)"
    by (simp add: alpha_run_events join_alpha) (simp add: expected_simps demo_opts_def)
  have h2: "WriteFile (join [''w''] [''beta''] @ [''index.html'']) index_html
     \<in> set (new_events (initProject [''w''] exec_fails ''beta'' demo_forced) demo_world)"
    by (simp add: beta_run_events join_beta) (simp add: expected_simps demo_forced_def)
  have h3: "[''index.html''] \<in> fst ` set invariant_files"
    by (simp add: invariant_files_def)
  have h4: "WriteFile (join [''w''] [''alpha''] @ [''package.json'']) (package_json ''alpha'')
     \<in> set (new_events (initProject [''w''] (exec_exits 0) ''alpha'' demo_opts) demo_world)"
    by (simp add: alpha_run_events join_alpha)
       (simp add: expected_simps demo_opts_def package_name_alpha)
  note inst = fixed_files_same_in_all_runs [OF h1 h2 h3]
  from inst have a: "([''index.html''], index_html) \<in> set invariant_files"
    by blast
  from inst h4 have b: "package_json ''alpha'' = package_json (package_name ''alpha'')"
    by blast
  from inst have c: "package_json (package_name ''alpha'') \<noteq> package_json (package_name ''beta'')"
    by blast
  from h1 h2 h3 h4 a b c show ?thesis
    by blast
qed

subsection \<open>The package descriptor\<close>

lemma steps_append:
  "steps (xs @ ys) w = (case steps xs w of Inl e \<Rightarrow> Inl e | Inr w' \<Rightarrow> steps ys w')"
  by (induction xs arbitrary: w) (auto split: sum.splits)

lemma makeFile_written:
  "makeFile p cwd c w = Inr w' \<Longrightarrow> files w' p = Some (File c)"
  by (auto simp: makeFile_def writeFile_def split: sum.splits if_splits)

lemma makeFile_keeps:
  assumes "makeFile p cwd c w = Inr w'" and "q \<noteq> p" and "files w q \<noteq> None"
  shows "files w' q = files w q"
proof -
  from assms(1) obtain w1 where a: "makeFolders (dirname p) w = Inr w1"
    and b: "writeFile p c w1 = Inr w'"
    by (auto simp: makeFile_def split: sum.splits)
  from b assms(2) have "files w' q = files w1 q"
    by (auto simp: writeFile_def split: if_splits)
  with makeFolders_keeps [OF a assms(3)] show ?thesis
    by simp
qed

lemma scaffold_package_json:
  assumes "scaffold ex pr root opts w = Inr w'"
  shows "files w' (pr @ [''package.json'']) = Some (File (package_json (package_name root)))"
proof -
  let ?pkg = "makeFile (pr @ [''package.json'']) pr (package_json (package_name root))"
  let ?ts = "makeFile (pr @ [''tsconfig.json'']) pr tsconfig_json"
  let ?vite = "makeFile (pr @ [''vite.config.js'']) pr vite_config_js"
  let ?before =
    "[makeFolders pr,
      makeFile (join pr [''public'', ''manifest.json'']) pr manifest_json,
      makeFolders (join pr [''assets''])]
     @ map (expand_entry pr) (templates (template opts))
     @ [makeFile (join pr [''src'', ''index.ts'']) pr index_ts,
        makeFile (join pr [''src'', ''constants.ts'']) pr constants_ts,
        makeFile (join pr [''index.html'']) pr index_html,
        makeFile (join pr [''.prettierrc'']) pr prettierrc]
     @ (if \<not> nogit opts
        then [makeFile (join pr [''.gitignore'']) pr gitignore,
              runCommand ex ''git init'' pr]
        else [])"
  have "scaffold ex pr root opts = steps (?before @ [?pkg, ?ts, ?vite])"
    by (simp add: scaffold_def join_simps)
  with assms obtain w1 where "steps [?pkg, ?ts, ?vite] w1 = Inr w'"
    by (auto simp: steps_append split: sum.splits)
  then obtain w2 w3 where a: "?pkg w1 = Inr w2" and b: "?ts w2 = Inr w3" and c: "?vite w3 = Inr w'"
    by (auto split: sum.splits)
  have w2: "files w2 (pr @ [''package.json'']) = Some (File (package_json (package_name root)))"
    using a by (rule makeFile_written)
  have ne: "pr @ [''package.json''] \<noteq> pr @ [''tsconfig.json'']"
    "pr @ [''package.json''] \<noteq> pr @ [''vite.config.js'']"
    by simp_all
  have w3: "files w3 (pr @ [''package.json'']) = files w2 (pr @ [''package.json''])"
    using w2 by (intro makeFile_keeps [OF b ne(1)]) simp
  have "files w' (pr @ [''package.json'']) = files w3 (pr @ [''package.json''])"
    using w2 w3 by (intro makeFile_keeps [OF c ne(2)]) simp
  with w2 w3 show ?thesis
    by simp
qed

lemma initProject_package_json:
  assumes "initProject cwd ex root opts w = Inr w'"
  shows "files w' (join cwd [root] @ [''package.json''])
         = Some (File (package_json (package_name root)))"
proof -
  from assms obtain w0 where "scaffold ex (join cwd [root]) root opts w0 = Inr w'"
    by (auto simp: initProject_def Let_def split: if_splits sum.splits)
  then show ?thesis
    by (rule scaffold_package_json)
qed

lemma package_name_examples:
  "package_name ''My Game'' = ''unnamed-game''"
  "package_name ''my-game'' = ''my-game''"
  "package_name ''@scope/pkg'' = ''@scope/pkg''"
  "package_name ''games/my-game'' = ''unnamed-game''"
  by (simp_all add: package_name_def regex_simps)

subsection \<open>The package-name pattern\<close>

lemma nullable_lang: "nullable r \<longleftrightarrow> [] \<in> lang r"
  by (induction r) (auto intro: star_empty)

lemma star_Cons:
  "x \<in> star A \<Longrightarrow> x = c # w \<Longrightarrow> \<exists>u v. w = u @ v \<and> c # u \<in> A \<and> v \<in> star A"
proof (induction arbitrary: w rule: star.induct)
  case star_empty
  then show ?case by simp
next
  case (star_more u v)
  show ?case
  proof (cases u)
    case Nil
    with star_more show ?thesis
      by simp
  next
    case (Cons d u')
    with star_more.prems have "w = u' @ v" and "d = c"
      by simp_all
    with Cons star_more.hyps show ?thesis
      by blast
  qed
qed

lemma star_Cons_iff:
  "c # w \<in> star A \<longleftrightarrow> (\<exists>u v. w = u @ v \<and> c # u \<in> A \<and> v \<in> star A)"
proof
  assume "c # w \<in> star A"
  then show "\<exists>u v. w = u @ v \<and> c # u \<in> A \<and> v \<in> star A"
    by (rule star_Cons) simp
next
  assume "\<exists>u v. w = u @ v \<and> c # u \<in> A \<and> v \<in> star A"
  then obtain u v where "w = u @ v" and "c # u \<in> A" and "v \<in> star A"
    by blast
  then show "c # w \<in> star A"
    using star_more [of "c # u" A v] by simp
qed

lemma deriv_lang: "w \<in> lang (deriv c r) \<longleftrightarrow> c # w \<in> lang r"
proof (induction r arbitrary: w)
  case (Seq r s)
  show ?case
  proof (cases "nullable r")
    case True
    then have "[] \<in> lang r"
      by (simp add: nullable_lang)
    with Seq True show ?thesis
      by (auto simp: Cons_eq_append_conv)
  next
    case False
    then have "[] \<notin> lang r"
      by (simp add: nullable_lang)
    with Seq False show ?thesis
      by (auto simp: Cons_eq_append_conv)
  qed
next
  case (Star r)
  then show ?case
    by (auto simp: star_Cons_iff)
qed auto

lemma foldl_deriv_lang: "nullable (foldl (\<lambda>r c. deriv c r) r s) \<longleftrightarrow> s \<in> lang r"
  by (induction s arbitrary: r) (simp_all add: nullable_lang deriv_lang)

lemma regex_test_lang: "regex_test r s \<longleftrightarrow> s \<in> lang r"
  by (simp add: regex_test_def foldl_deriv_lang)

lemma star_Class: "w \<in> star ((\<lambda>c. [c]) ` set cs) \<longleftrightarrow> list_all (\<lambda>d. d \<in> set cs) w"
proof
  assume "w \<in> star ((\<lambda>c. [c]) ` set cs)"
  then show "list_all (\<lambda>d. d \<in> set cs) w"
    by (induction rule: star.induct) auto
next
  assume "list_all (\<lambda>d. d \<in> set cs) w"
  then show "w \<in> star ((\<lambda>c. [c]) ` set cs)"
  proof (induction w)
    case Nil
    show ?case by (rule star_empty)
  next
    case (Cons d w)
    then have "[d] \<in> (\<lambda>c. [c]) ` set cs" and "w \<in> star ((\<lambda>c. [c]) ` set cs)"
      by simp_all
    then have "[d] @ w \<in> star ((\<lambda>c. [c]) ` set cs)"
      by (rule star_more)
    then show ?case by simp
  qed
qed

lemma lang_Seq_iff: "s \<in> lang (Seq r1 r2) \<longleftrightarrow> (\<exists>u v. s = u @ v \<and> u \<in> lang r1 \<and> v \<in> lang r2)"
  by simp

lemma lang_Class_iff: "s \<in> lang (Class cs) \<longleftrightarrow> (\<exists>c. s = [c] \<and> c \<in> set cs)"
  by auto

lemma lang_Lit_iff: "s \<in> lang (Lit a) \<longleftrightarrow> s = [a]"
  by (auto simp: Lit_def)

lemma lang_Star_Class: "s \<in> lang (Star (Class b)) \<longleftrightarrow> list_all (\<lambda>d. d \<in> set b) s"
  by (simp add: star_Class)

lemma lang_Class_Star:
  "s \<in> lang (Seq (Class a) (Star (Class b)))
   \<longleftrightarrow> (case s of [] \<Rightarrow> False | c # cs \<Rightarrow> c \<in> set a \<and> list_all (\<lambda>d. d \<in> set b) cs)"
proof (cases s)
  case Nil
  then show ?thesis
    unfolding lang_Seq_iff lang_Class_iff by simp
next
  case (Cons c cs)
  have "(\<exists>u v. c # cs = u @ v \<and> (\<exists>d. u = [d] \<and> d \<in> set a) \<and> list_all (\<lambda>d. d \<in> set b) v)
        \<longleftrightarrow> c \<in> set a \<and> list_all (\<lambda>d. d \<in> set b) cs"
  proof
    assume "\<exists>u v. c # cs = u @ v \<and> (\<exists>d. u = [d] \<and> d \<in> set a) \<and> list_all (\<lambda>d. d \<in> set b) v"
    then obtain v d where "c # cs = [d] @ v" and "d \<in> set a" and "list_all (\<lambda>d. d \<in> set b) v"
      by blast
    then show "c \<in> set a \<and> list_all (\<lambda>d. d \<in> set b) cs"
      by simp
  next
    assume "c \<in> set a \<and> list_all (\<lambda>d. d \<in> set b) cs"
    then have "c # cs = [c] @ cs \<and> (\<exists>d. [c] = [d] \<and> d \<in> set a) \<and> list_all (\<lambda>d. d \<in> set b) cs"
      by simp
    then show "\<exists>u v. c # cs = u @ v \<and> (\<exists>d. u = [d] \<and> d \<in> set a) \<and> list_all (\<lambda>d. d \<in> set b) v"
      by (intro exI)
  qed
  with Cons show ?thesis
    unfolding lang_Seq_iff lang_Class_iff lang_Star_Class by simp
qed

lemma lang_plain_name: "s \<in> lang (Seq name_first (Star name_rest)) \<longleftrightarrow> plain_name s"
  unfolding name_first_def name_rest_def plain_name_def by (rule lang_Class_Star)

lemma lang_between:
  "s \<in> lang (Seq (Lit a) (Seq r1 (Seq r2 (Lit b))))
   \<longleftrightarrow> (\<exists>m. s = a # m @ [b] \<and> m \<in> lang (Seq r1 r2))"
proof
  assume "s \<in> lang (Seq (Lit a) (Seq r1 (Seq r2 (Lit b))))"
  then obtain u v where "s = [a] @ u @ v @ [b]" and "u \<in> lang r1" and "v \<in> lang r2"
    unfolding lang_Seq_iff lang_Lit_iff by blast
  then have "s = a # (u @ v) @ [b]" and "u @ v \<in> lang (Seq r1 r2)"
    unfolding lang_Seq_iff by auto
  then show "\<exists>m. s = a # m @ [b] \<and> m \<in> lang (Seq r1 r2)"
    by (intro exI conjI)
next
  assume "\<exists>m. s = a # m @ [b] \<and> m \<in> lang (Seq r1 r2)"
  then obtain u v where "s = a # (u @ v) @ [b]" and u: "u \<in> lang r1" and v: "v \<in> lang r2"
    unfolding lang_Seq_iff by blast
  then have s: "s = [a] @ (u @ (v @ [b]))"
    by simp
  have "v @ [b] \<in> lang (Seq r2 (Lit b))"
    unfolding lang_Seq_iff lang_Lit_iff using v by (intro exI [of _ v] exI [of _ "[b]"]) simp
  then have "u @ (v @ [b]) \<in> lang (Seq r1 (Seq r2 (Lit b)))"
    using u by (subst lang_Seq_iff) (intro exI [of _ u] exI [of _ "v @ [b]"], simp)
  then show "s \<in> lang (Seq (Lit a) (Seq r1 (Seq r2 (Lit b))))"
    unfolding s
    by (subst lang_Seq_iff)
       (intro exI [of _ "[a]"] exI [of _ "u @ (v @ [b])"], simp add: lang_Lit_iff)
qed

lemma lang_scope:
  "s \<in> lang (Seq (Lit CHR ''@'') (Seq name_first (Seq (Star name_rest) (Lit CHR ''/''))))
   \<longleftrightarrow> (\<exists>scope. s = CHR ''@'' # scope @ ''/'' \<and> plain_name scope)"
  unfolding lang_between lang_plain_name ..

lemma lang_Opt_Seq:
  "s \<in> lang (Seq (Opt r1) r2) \<longleftrightarrow> s \<in> lang r2 \<or> (\<exists>u v. s = u @ v \<and> u \<in> lang r1 \<and> v \<in> lang r2)"
proof -
  have "s \<in> lang (Seq (Opt r1) r2)
        \<longleftrightarrow> (\<exists>u v. s = u @ v \<and> (u \<in> lang r1 \<or> u = []) \<and> v \<in> lang r2)"
    by (auto simp: Opt_def)
  also have "\<dots> \<longleftrightarrow> (\<exists>u v. s = u @ v \<and> u = [] \<and> v \<in> lang r2)
                    \<or> (\<exists>u v. s = u @ v \<and> u \<in> lang r1 \<and> v \<in> lang r2)"
    by blast
  also have "\<dots> \<longleftrightarrow> s \<in> lang r2 \<or> (\<exists>u v. s = u @ v \<and> u \<in> lang r1 \<and> v \<in> lang r2)"
    by simp
  finally show ?thesis .
qed

lemma package_name_pattern:
  "regex_test PACKAGE_NAME_REGEX s
   \<longleftrightarrow> plain_name s \<or> (\<exists>scope name. s = CHR ''@'' # scope @ ''/'' @ name
                          \<and> plain_name scope \<and> plain_name name)"
proof -
  have "s \<in> lang PACKAGE_NAME_REGEX
        \<longleftrightarrow> plain_name s \<or> (\<exists>u v. s = u @ v
                     \<and> (\<exists>scope. u = CHR ''@'' # scope @ ''/'' \<and> plain_name scope)
                     \<and> plain_name v)"
    unfolding PACKAGE_NAME_REGEX_def lang_Opt_Seq lang_scope lang_plain_name ..
  also have "\<dots> \<longleftrightarrow> plain_name s \<or> (\<exists>scope name. s = (CHR ''@'' # scope @ ''/'') @ name
                          \<and> plain_name scope \<and> plain_name name)"
    by blast
  finally show ?thesis
    by (simp add: regex_test_lang)
qed

subsection \<open>The declared package name\<close>

lemma demo_fresh_success:
  assumes "join [''w''] [r] = [''w''] @ rel" and "rel \<noteq> []"
  shows "\<exists>w'. initProject [''w''] (exec_exits n) r opts demo_world = Inr w'"
proof -
  have fresh: "\<not> exists (files demo_world) (join [''w''] [r])"
    using assms by (simp add: exists_def demo_world_def)
  have way: "\<forall>q. strict_prefix q (join [''w''] [r]) \<longrightarrow> \<not> is_file (files demo_world) q"
    by (simp add: is_file_def demo_world_def)
  from initProject_fresh
    [where ex = "exec_exits n" and opts = opts, OF wf_demo_world fresh way]
  obtain evs where run: "initProject [''w''] (exec_exits n) r opts demo_world
      = lift_result (join [''w''] [r]) (with_dirs (join [''w''] [r]) (files demo_world))
          (trace demo_world @ evs)
          (scaffold (\<lambda>c d. exec_exits n c (join [''w''] [r] @ d)) [] r opts empty_world)"
    by (elim exE conjE)
  have "nogit opts
        \<or> (\<lambda>c d. exec_exits n c (join [''w''] [r] @ d)) ''git init'' [] = Exited n Map.empty"
    by (simp add: exec_exits_def)
  from scaffold_rel_success
    [where ex = "\<lambda>c d. exec_exits n c (join [''w''] [r] @ d)" and opts = opts and root = r,
     OF this]
  show ?thesis
    using run by simp
qed

lemma join_my_game: "join [''w''] [''my-game''] = [''w'', ''my-game'']"
  by (simp add: join_def push_segment_def)

lemma join_games_my_game: "join [''w''] [''games/my-game''] = [''w'', ''games'', ''my-game'']"
  by (simp add: join_def push_segment_def)

text \<open>
  C2, as the program behaves. The pattern is tested on the \<open>root\<close> argument as given, not
  on its base name, and the name declared is that argument itself: the package
  descriptor of a successful run declares \<open>root\<close> if the pattern accepts \<open>root\<close>, and
  \<open>unnamed-game\<close> otherwise. The pattern accepts a plain name, or \<open>@\<close>, a plain name,
  \<open>/\<close> and a plain name. \<open>My Game\<close> yields the fallback; \<open>my-game\<close> and \<open>@scope/pkg\<close> are
  used as they are.
\<close>

theorem package_descriptor_name:
  "(initProject cwd ex root opts w = Inr w' \<longrightarrow>
      files w' (join cwd [root] @ [''package.json''])
      = Some (File (package_json (package_name root))))
   \<and> package_name root = (if regex_test PACKAGE_NAME_REGEX root then root else ''unnamed-game'')
   \<and> (regex_test PACKAGE_NAME_REGEX root
        \<longleftrightarrow> plain_name root
            \<or> (\<exists>scope name. root = CHR ''@'' # scope @ ''/'' @ name
                  \<and> plain_name scope \<and> plain_name name))
   \<and> package_name ''My Game'' = ''unnamed-game''
   \<and> package_name ''my-game'' = ''my-game''
   \<and> package_name ''@scope/pkg'' = ''@scope/pkg''"
proof -
  have "initProject cwd ex root opts w = Inr w' \<longrightarrow>
      files w' (join cwd [root] @ [''package.json''])
      = Some (File (package_json (package_name root)))"
    using initProject_package_json [of cwd ex root opts w w'] by blast
  moreover have "package_name root
      = (if regex_test PACKAGE_NAME_REGEX root then root else ''unnamed-game'')"
    by (simp add: package_name_def)
  ultimately show ?thesis
    using package_name_pattern [of root] package_name_examples(1-3) by blast
qed

theorem package_descriptor_name_witness:
  "\<exists>w'. initProject [''w''] (exec_exits 0) ''my-game'' demo_opts demo_world = Inr w'
        \<and> files w' [''w'', ''my-game'', ''package.json'']
            = Some (File (package_json ''my-game''))"
proof -
  from demo_fresh_success [of "''my-game''" "[''my-game'']" 0 demo_opts]
  obtain w' where run: "initProject [''w''] (exec_exits 0) ''my-game'' demo_opts demo_world = Inr w'"
    by (auto simp: join_my_game)
  from package_descriptor_name
    [of "[''w'']" "exec_exits 0" "''my-game''" demo_opts demo_world w'] run
  have "files w' (join [''w''] [''my-game''] @ [''package.json''])
        = Some (File (package_json (package_name ''my-game'')))"
    and "package_name ''my-game'' = ''my-game''"
    by blast+
  then have "files w' [''w'', ''my-game'', ''package.json''] = Some (File (package_json ''my-game''))"
    by (simp add: join_my_game)
  with run show ?thesis
    by blast
qed

theorem base_name_not_used_counterexample:
  "basename ''games/my-game'' = ''my-game''
   \<and> regex_test PACKAGE_NAME_REGEX (basename ''games/my-game'')
   \<and> files (world_of (initProject [''w''] (exec_exits 0) ''games/my-game'' demo_opts demo_world))
       [''w'', ''games'', ''my-game'', ''package.json'']
      = Some (File (package_json ''unnamed-game''))
   \<and> package_json ''unnamed-game'' \<noteq> package_json ''my-game''"
proof -
  have b: "basename ''games/my-game'' = ''my-game''"
    by (simp add: basename_def)
  have r: "regex_test PACKAGE_NAME_REGEX ''my-game''"
    by (simp add: regex_simps)
  from demo_fresh_success [of "''games/my-game''" "[''games'', ''my-game'']" 0 demo_opts]
  obtain w' where run: "initProject [''w''] (exec_exits 0) ''games/my-game'' demo_opts demo_world = Inr w'"
    by (auto simp: join_games_my_game)
  from initProject_package_json [OF run]
  have f: "files (world_of (initProject [''w''] (exec_exits 0) ''games/my-game'' demo_opts demo_world))
       [''w'', ''games'', ''my-game'', ''package.json'']
      = Some (File (package_json ''unnamed-game''))"
    by (simp add: run join_games_my_game package_name_examples)
  have n: "package_json ''unnamed-game'' \<noteq> package_json ''my-game''"
    using package_json_inject [of "''unnamed-game''" "''my-game''"] by auto
  from b r f n show ?thesis
    by simp
qed

end
